theory Spec2Isabelle
  imports Main "HOL-Library.AList" "HOL-Library.Char_ord" "HOL-Library.List_Lexorder"
begin

section \<open>JavaScript values, objects used as dictionaries, errors\<close>

text \<open>
  The INDI client keeps its device tree in plain JavaScript objects used as dictionaries
  (\<^verbatim>\<open>deviceTree[device][vector]\<close>, \<^verbatim>\<open>childs[name]\<close>). They are modelled as association
  lists with one entry per key: \<open>map_of\<close> is the property read, \<open>AList.update\<close> the
  assignment (a new key goes to the end, as a new own property does), \<open>AList.delete\<close> the
  \<^verbatim>\<open>delete\<close> operator. Keys are ordinary names; the special key \<^verbatim>\<open>__proto__\<close> is outside
  the model. An attribute that may be missing on a decoded XML element is a
  \<open>string option\<close>, \<open>None\<close> standing for \<^verbatim>\<open>undefined\<close>.
\<close>

datatype jsval = Undefined | Null | Str string | Num nat

datatype error =
    Error string          \<comment> \<open>\<^verbatim>\<open>throw new Error(msg)\<close>\<close>
  | Thrown string         \<comment> \<open>a plain string thrown or given to \<^verbatim>\<open>next.error\<close>\<close>
  | TypeError             \<comment> \<open>reading a property of \<^verbatim>\<open>undefined\<close>\<close>
  | CancellationError     \<comment> \<open>what a cancelled token makes an await throw\<close>

definition key_of :: "string option \<Rightarrow> string" where
  \<comment> \<open>the property key an attribute value is converted to when it indexes an object\<close>
  "key_of a = (case a of None \<Rightarrow> ''undefined'' | Some s \<Rightarrow> s)"

definition has :: "('k \<times> 'v) list \<Rightarrow> 'k \<Rightarrow> bool" where
  "has obj key = (map_of obj key \<noteq> None)"

section \<open>Data model: elements, messages, vectors, the device tree\<close>

text \<open>A child element of a vector message (\<^verbatim>\<open>defText\<close>, \<^verbatim>\<open>oneSwitch\<close>, ...): its \<^verbatim>\<open>$name\<close>
  and \<^verbatim>\<open>$label\<close> attributes and its text \<^verbatim>\<open>$_\<close>.\<close>

record element =
  el_name :: "string option"
  el_label :: "string option"
  el_text :: "string option"

text \<open>A decoded message: the tag \<^verbatim>\<open>$$\<close>, the attributes the reducer reads, and the arrays of
  child elements by element name (\<^verbatim>\<open>message['defText']\<close>, \<^verbatim>\<open>message['oneSwitch']\<close>).\<close>

record message =
  m_tag :: string
  m_device :: "string option"
  m_name :: "string option"
  m_state :: "string option"
  m_timeout :: "string option"
  m_timestamp :: "string option"
  m_message :: "string option"
  m_elems :: "(string \<times> element list) list"

text \<open>A vector as the tree holds it: the definition message after \<^verbatim>\<open>onMessage\<close> has added
  \<^verbatim>\<open>$type\<close>, \<^verbatim>\<open>$rev\<close>, \<^verbatim>\<open>childs\<close> and \<^verbatim>\<open>childNames\<close> to it.\<close>

record vector =
  v_type :: string
  v_state :: "string option"
  v_timeout :: jsval
  v_timestamp :: "string option"
  v_message :: "string option"
  v_rev :: nat
  childs :: "(string \<times> element) list"
  childNames :: "string option list"

type_synonym device = "(string \<times> vector) list"
type_synonym tree = "(string \<times> device) list"

text \<open>An outgoing command. \<^verbatim>\<open>IndiConnection.toXml\<close> renders it with the xmlbuilder package;
  the model keeps the object that is rendered.\<close>

record command =
  c_tag :: string
  c_device :: string
  c_name :: string
  c_elem :: string
  c_items :: "(string \<times> string) list"

datatype wire = GetProperties | Xml command

text \<open>Listeners are closures compared by identity: the closure made by the wait with a
  given \<^verbatim>\<open>waiterId\<close>, the listener \<^verbatim>\<open>IndiManager.lifecycle\<close> registers (it calls
  \<^verbatim>\<open>refreshStatus\<close>), and listeners of other modules.\<close>

datatype lid = WaitL nat | RefreshL | ExtL nat

text \<open>The state of the promise a wait settles, and what the closure built by
  \<^verbatim>\<open>IndiConnection.wait\<close> captures: the predicate (it reads the device tree and the
  \<^verbatim>\<open>dead\<close> flag, and returns a truthy or falsy value or throws), the
  \<^verbatim>\<open>allowDisconnectionState\<close> flag and the \<^verbatim>\<open>listener\<close> variable.\<close>

datatype pstate = Pending | Done | Failed error | Cancelled

type_synonym predicate = "tree \<Rightarrow> bool \<Rightarrow> error + bool"

record waiter =
  w_pred :: predicate
  w_allow :: bool
  w_listener :: bool
  w_state :: pstate

text \<open>The state of one connection together with the module variable
  \<^verbatim>\<open>globalRevisionId\<close> and the two fields of \<^verbatim>\<open>IndiManager\<close> that \<^verbatim>\<open>refreshStatus\<close>
  uses. \<open>socketOut\<close> records what was written to the socket, \<open>pendingTicks\<close> the callbacks
  given to \<^verbatim>\<open>process.nextTick\<close> that have not run yet, \<open>invoked\<close> the listeners called so
  far and \<open>delivered\<close> the broadcast notes handed to message listeners.\<close>

record conn =
  deviceTree :: tree
  connected :: bool
  dead :: bool
  queue :: "command list"
  socketOut :: "wire list"
  listeners :: "lid list"
  messageListeners :: "nat list"
  checkingListeners :: "lid list option"
  waiterId :: nat
  globalRevisionId :: nat
  pendingTicks :: nat
  waiters :: "(nat \<times> waiter) list"
  invoked :: "lid list"
  delivered :: "(nat \<times> message) list"
  mgrConnection :: bool
  mgrStatus :: string

definition newConnection :: "nat \<Rightarrow> conn" where
  \<comment> \<open>the constructor of \<^verbatim>\<open>IndiConnection\<close>; the revision counter is global and is given\<close>
  "newConnection r = \<lparr> deviceTree = [], connected = False, dead = False, queue = [],
     socketOut = [], listeners = [], messageListeners = [], checkingListeners = None,
     waiterId = 0, globalRevisionId = r, pendingTicks = 0, waiters = [], invoked = [],
     delivered = [], mgrConnection = True, mgrStatus = ''connecting'' \<rparr>"

section \<open>The Vector handle\<close>

definition getVectorInTree :: "tree \<Rightarrow> string \<Rightarrow> string \<Rightarrow> vector option" where
  "getVectorInTree t device vectorId =
     (if \<not> has t device then None
      else (case map_of t device of
              None \<Rightarrow> None
            | Some dev \<Rightarrow> if \<not> has dev vectorId then None else map_of dev vectorId))"

definition getExistingVectorInTree :: "tree \<Rightarrow> string \<Rightarrow> string \<Rightarrow> error + vector" where
  "getExistingVectorInTree t device vectorId =
     (case getVectorInTree t device vectorId of
        None \<Rightarrow> Inl (Error (''Property not found: '' @ device @ ''/'' @ vectorId))
      | Some rslt \<Rightarrow> Inr rslt)"

definition exists_vec :: "tree \<Rightarrow> string \<Rightarrow> string \<Rightarrow> bool" where
  "exists_vec t device vectorId = (getVectorInTree t device vectorId \<noteq> None)"

definition getState :: "tree \<Rightarrow> string \<Rightarrow> string \<Rightarrow> error + string option" where
  "getState t device vectorId = map_sum id v_state (getExistingVectorInTree t device vectorId)"

definition getRev :: "tree \<Rightarrow> string \<Rightarrow> string \<Rightarrow> error + nat" where
  "getRev t device vectorId = map_sum id v_rev (getExistingVectorInTree t device vectorId)"

definition text_val :: "string option \<Rightarrow> jsval" where
  "text_val a = (case a of None \<Rightarrow> Undefined | Some s \<Rightarrow> Str s)"

definition getPropertyValue :: "tree \<Rightarrow> string \<Rightarrow> string \<Rightarrow> string \<Rightarrow> error + jsval" where
  "getPropertyValue t device vectorId name =
     (case getExistingVectorInTree t device vectorId of
        Inl e \<Rightarrow> Inl e
      | Inr vecDef \<Rightarrow>
          (case map_of (childs vecDef) name of
             None \<Rightarrow> Inl (Error (''Property not found: '' @ device @ ''/'' @ vectorId @ ''/'' @ name))
           | Some prop \<Rightarrow> Inr (text_val (el_text prop))))"

definition getPropertyValueIfExists :: "tree \<Rightarrow> string \<Rightarrow> string \<Rightarrow> string \<Rightarrow> jsval" where
  "getPropertyValueIfExists t device vectorId name =
     (case getVectorInTree t device vectorId of
        None \<Rightarrow> Null
      | Some vecDef \<Rightarrow>
          (case map_of (childs vecDef) name of
             None \<Rightarrow> Null
           | Some prop \<Rightarrow> text_val (el_text prop)))"

subsection \<open>The outgoing queue\<close>

fun flushLoop :: "command list \<Rightarrow> wire list \<Rightarrow> wire list" where
  "flushLoop [] out = out"
| "flushLoop (toSend # q) out = flushLoop q (out @ [Xml toSend])"

definition flushQueue :: "conn \<Rightarrow> conn" where
  "flushQueue c =
     (if \<not> connected c then c
      else c\<lparr> socketOut := flushLoop (queue c) (socketOut c), queue := [] \<rparr>)"

definition queueMessage :: "command \<Rightarrow> conn \<Rightarrow> conn" where
  "queueMessage msg c = flushQueue (c\<lparr> queue := queue c @ [msg] \<rparr>)"

definition set_busy :: "string \<Rightarrow> string \<Rightarrow> tree \<Rightarrow> tree" where
  \<comment> \<open>\<^verbatim>\<open>vecDef.$state = "Busy"\<close> on the vector object the tree holds\<close>
  "set_busy device vectorId t =
     AList.map_entry device (AList.map_entry vectorId (\<lambda>v. v\<lparr> v_state := Some ''Busy'' \<rparr>)) t"

definition setValues ::
  "string \<Rightarrow> string \<Rightarrow> (string \<times> string) list \<Rightarrow> conn \<Rightarrow> error option \<times> conn" where
  "setValues device vectorId affectations c =
     (case getExistingVectorInTree (deviceTree c) device vectorId of
        Inl e \<Rightarrow> (Some e, c)
      | Inr vecDef \<Rightarrow>
          (let msg = \<lparr> c_tag = ''new'' @ v_type vecDef @ ''Vector'', c_device = device,
                       c_name = vectorId, c_elem = ''one'' @ v_type vecDef,
                       c_items = map (\<lambda>item. (fst item, snd item)) affectations \<rparr>;
               c1 = c\<lparr> deviceTree := set_busy device vectorId (deviceTree c) \<rparr>
           in (None, queueMessage msg c1)))"

section \<open>The reducer: \<^verbatim>\<open>IndiConnection.onMessage\<close>\<close>

text \<open>The tag tests of \<^verbatim>\<open>onMessage\<close>: \<^verbatim>\<open>/^def.*Vector$/\<close> and \<^verbatim>\<open>/^set.*Vector$/\<close>. The dot
  of a JavaScript regular expression matches no line terminator; among the 8-bit
  characters of the model these are the line feed and the carriage return.\<close>

definition line_terminator :: "char \<Rightarrow> bool" where
  "line_terminator ch = (ch = CHR 0x0A \<or> ch = CHR 0x0D)"

definition matches_vector :: "string \<Rightarrow> string \<Rightarrow> bool" where
  "matches_vector pre t =
     (length pre + 6 \<le> length t \<and> take (length pre) t = pre
      \<and> drop (length t - 6) t = ''Vector''
      \<and> list_all (\<lambda>ch. \<not> line_terminator ch) (drop (length pre) (take (length t - 6) t)))"

definition strip_Vector :: "string \<Rightarrow> string" where
  \<comment> \<open>\<^verbatim>\<open>.replace(/Vector$/, '')\<close>\<close>
  "strip_Vector t =
     (if 6 \<le> length t \<and> drop (length t - 6) t = ''Vector'' then take (length t - 6) t else t)"

definition strip_prefix :: "string \<Rightarrow> string \<Rightarrow> string" where
  \<comment> \<open>\<^verbatim>\<open>.replace(/^def/, '')\<close>, \<^verbatim>\<open>.replace(/^set/, '')\<close>\<close>
  "strip_prefix pre t = (if take (length pre) t = pre then drop (length pre) t else t)"

fun index_childs :: "element list \<Rightarrow> (string \<times> element) list \<Rightarrow> (string \<times> element) list" where
  "index_childs [] acc = acc"
| "index_childs (child # rest) acc =
     index_childs rest (AList.update (key_of (el_name child)) child acc)"

definition def_vector :: "message \<Rightarrow> string \<Rightarrow> element list \<Rightarrow> nat \<Rightarrow> vector" where
  "def_vector message type chs r =
     \<lparr> v_type = type, v_state = m_state message, v_timeout = text_val (m_timeout message),
       v_timestamp = m_timestamp message, v_message = m_message message, v_rev = r,
       childs = index_childs chs [], childNames = map el_name chs \<rparr>"

definition getDeviceInTree :: "string \<Rightarrow> tree \<Rightarrow> tree" where
  \<comment> \<open>\<^verbatim>\<open>IndiConnection.getDeviceInTree\<close>: creates the device entry when it is missing\<close>
  "getDeviceInTree dev t = (if \<not> has t dev then AList.update dev [] t else t)"

definition put_vector :: "string \<Rightarrow> string \<Rightarrow> vector \<Rightarrow> tree \<Rightarrow> tree" where
  \<comment> \<open>\<^verbatim>\<open>this.getDeviceInTree(dev)[name] = v\<close>\<close>
  "put_vector dev name v t = AList.map_entry dev (AList.update name v) (getDeviceInTree dev t)"

fun apply_updates :: "element list \<Rightarrow> (string \<times> element) list \<Rightarrow> (string \<times> element) list" where
  "apply_updates [] cs = cs"
| "apply_updates (update # rest) cs =
     (if \<not> has cs (key_of (el_name update)) then apply_updates rest cs
      else apply_updates rest
             (AList.map_entry (key_of (el_name update))
                (\<lambda>current. current\<lparr> el_text :=
                     Some (case el_text update of None \<Rightarrow> [] | Some v \<Rightarrow> v) \<rparr>) cs))"

definition set_header :: "message \<Rightarrow> nat \<Rightarrow> vector \<Rightarrow> vector" where
  \<comment> \<open>the assignments to \<^verbatim>\<open>prop\<close> at the start of the update branch\<close>
  "set_header message r prop =
     prop\<lparr> v_state := m_state message,
           v_timeout := (case m_timeout message of None \<Rightarrow> Num 0 | Some s \<Rightarrow> Str s),
           v_timestamp := m_timestamp message,
           v_rev := r,
           v_message := (case m_message message of None \<Rightarrow> v_message prop | Some s \<Rightarrow> Some s) \<rparr>"

definition dispatchMessage :: "message \<Rightarrow> conn \<Rightarrow> conn" where
  \<comment> \<open>every message listener is called with the note; what a listener throws is caught\<close>
  "dispatchMessage m c = c\<lparr> delivered := delivered c @ map (\<lambda>l. (l, m)) (messageListeners c) \<rparr>"

definition checkListeners :: "conn \<Rightarrow> conn" where
  "checkListeners c =
     (let c1 = c\<lparr> checkingListeners := Some (listeners c) \<rparr>
      in if length (listeners c1) = 0 then c1
         else c1\<lparr> pendingTicks := pendingTicks c1 + 1 \<rparr>)"

text \<open>How a part of \<^verbatim>\<open>onMessage\<close> ends: it falls through to the next statement, returns
  from \<^verbatim>\<open>onMessage\<close>, or throws.\<close>

datatype flow = Next | Return | Throw error

definition def_branch :: "message \<Rightarrow> conn \<Rightarrow> flow \<times> conn" where
  "def_branch message c =
     (if matches_vector ''def'' (m_tag message) then
        (let childsProps = strip_Vector (m_tag message);
             type = strip_prefix ''def'' childsProps
         in case map_of (m_elems message) childsProps of
              None \<Rightarrow> (Throw TypeError, c)
            | Some chs \<Rightarrow>
                (Next, c\<lparr> deviceTree :=
                   put_vector (key_of (m_device message)) (key_of (m_name message))
                     (def_vector message type chs (globalRevisionId c)) (deviceTree c) \<rparr>))
      else (Next, c))"

definition del_branch :: "message \<Rightarrow> conn \<Rightarrow> flow \<times> conn" where
  "del_branch message c =
     (if m_tag message = ''delProperty'' then
        (case map_of (deviceTree c) (key_of (m_device message)) of
           None \<Rightarrow> (Return, c)
         | Some dev \<Rightarrow>
             (case m_name message of
                Some name \<Rightarrow>
                  if \<not> has dev name then (Return, c)
                  else (Next, c\<lparr> deviceTree :=
                          AList.map_entry (key_of (m_device message)) (AList.delete name)
                            (deviceTree c) \<rparr>)
              | None \<Rightarrow>
                  (Next, c\<lparr> deviceTree :=
                     AList.delete (key_of (m_device message)) (deviceTree c) \<rparr>)))
      else (Next, c))"

definition set_branch :: "message \<Rightarrow> conn \<Rightarrow> flow \<times> conn" where
  "set_branch message c =
     (if matches_vector ''set'' (m_tag message) then
        (let kind = strip_prefix ''set'' (strip_Vector (m_tag message));
             device = key_of (m_device message);
             name = key_of (m_name message)
         in case map_of (deviceTree c) device of
              None \<Rightarrow> (Return, c)
            | Some dev \<Rightarrow>
                if \<not> has dev name then (Return, c)
                else
                  (let c1 = c\<lparr> deviceTree :=
                              AList.map_entry device
                                (AList.map_entry name (set_header message (globalRevisionId c)))
                                (deviceTree c) \<rparr>
                   in case map_of (m_elems message) (''one'' @ kind) of
                        None \<Rightarrow> (Return, c1)
                      | Some updates \<Rightarrow>
                          (Next, c1\<lparr> deviceTree :=
                             AList.map_entry device
                               (AList.map_entry name
                                  (\<lambda>prop. prop\<lparr> childs := apply_updates updates (childs prop) \<rparr>))
                               (deviceTree c1) \<rparr>)))
      else (Next, c))"

definition reduce :: "message \<Rightarrow> conn \<Rightarrow> flow \<times> conn" where
  \<comment> \<open>the body of \<^verbatim>\<open>onMessage\<close> between the increment and the final \<^verbatim>\<open>checkListeners\<close>\<close>
  "reduce message c =
     (if m_tag message = ''message'' then (Return, dispatchMessage message c)
      else (case def_branch message c of
              (Next, c1) \<Rightarrow>
                (case del_branch message c1 of
                   (Next, c2) \<Rightarrow> set_branch message c2
                 | r \<Rightarrow> r)
            | r \<Rightarrow> r))"

definition onMessage :: "message \<Rightarrow> conn \<Rightarrow> error option \<times> conn" where
  "onMessage message c =
     (case reduce message (c\<lparr> globalRevisionId := globalRevisionId c + 1 \<rparr>) of
        (Next, c') \<Rightarrow> (None, checkListeners c')
      | (Return, c') \<Rightarrow> (None, c')
      | (Throw e, c') \<Rightarrow> (Some e, c'))"

definition returns_early :: "message \<Rightarrow> tree \<Rightarrow> bool" where
  \<comment> \<open>a broadcast note, an update whose device or vector is unknown, a deletion whose
      device or named vector is unknown\<close>
  "returns_early message t =
     (m_tag message = ''message''
      \<or> (matches_vector ''set'' (m_tag message)
          \<and> getVectorInTree t (key_of (m_device message)) (key_of (m_name message)) = None)
      \<or> (m_tag message = ''delProperty''
          \<and> (\<not> has t (key_of (m_device message))
              \<or> (m_name message \<noteq> None
                  \<and> getVectorInTree t (key_of (m_device message)) (key_of (m_name message)) = None))))"

section \<open>Listeners and the dispatch pass\<close>

definition addListener :: "lid \<Rightarrow> conn \<Rightarrow> conn" where
  "addListener f c = c\<lparr> listeners := listeners c @ [f] \<rparr>"

definition removeListener :: "lid \<Rightarrow> conn \<Rightarrow> conn" where
  \<comment> \<open>each loop splices the first entry identical to \<open>f\<close> and stops\<close>
  "removeListener f c =
     c\<lparr> listeners := remove1 f (listeners c),
        checkingListeners := (case checkingListeners c of
                                None \<Rightarrow> None
                              | Some cl \<Rightarrow> Some (remove1 f cl)) \<rparr>"

text \<open>What a listener of another module does to the registry when it is called: a sequence
  of \<^verbatim>\<open>addListener\<close> and \<^verbatim>\<open>removeListener\<close> calls, possibly ended by an exception. It may
  depend on the state it is called in.\<close>

datatype action = AddListener lid | RemoveListener lid | Raise error

type_synonym ext = "nat \<Rightarrow> conn \<Rightarrow> action list"

fun run_actions :: "action list \<Rightarrow> conn \<Rightarrow> error option \<times> conn" where
  "run_actions [] c = (None, c)"
| "run_actions (AddListener f # rest) c = run_actions rest (addListener f c)"
| "run_actions (RemoveListener f # rest) c = run_actions rest (removeListener f c)"
| "run_actions (Raise e # rest) c = (Some e, c)"

definition isActive :: "waiter \<Rightarrow> bool" where
  \<comment> \<open>Modelled from the spec: \<^verbatim>\<open>next.isActive()\<close> of the Promises module, which is not
      among the sources; a wait produces at most one terminal outcome, so it is active
      while none was produced.\<close>
  "isActive w = (w_state w = Pending)"

definition settle :: "nat \<Rightarrow> pstate \<Rightarrow> conn \<Rightarrow> conn" where
  \<comment> \<open>Modelled from the spec: \<^verbatim>\<open>next.done\<close>, \<^verbatim>\<open>next.error\<close> and \<^verbatim>\<open>next.cancel\<close> of the
      Promises module, which is not among the sources: the first terminal outcome is
      kept. What the module then runs for the caller of the wait is outside the model.\<close>
  "settle i outcome c =
     c\<lparr> waiters := AList.map_entry i
          (\<lambda>w. if w_state w = Pending then w\<lparr> w_state := outcome \<rparr> else w) (waiters c) \<rparr>"

definition dettach :: "nat \<Rightarrow> conn \<Rightarrow> conn" where
  "dettach i c =
     (case map_of (waiters c) i of
        None \<Rightarrow> c
      | Some w \<Rightarrow>
          if w_listener w then
            (removeListener (WaitL i) c)
              \<lparr> waiters := AList.map_entry i (\<lambda>w. w\<lparr> w_listener := False \<rparr>) (waiters c) \<rparr>
          else c)"

definition wait_listener :: "nat \<Rightarrow> conn \<Rightarrow> conn" where
  \<comment> \<open>the closure \<^verbatim>\<open>listener\<close> that \<^verbatim>\<open>wait\<close> registers\<close>
  "wait_listener i c =
     (case map_of (waiters c) i of
        None \<Rightarrow> c
      | Some w \<Rightarrow>
          if \<not> isActive w then c
          else (case w_pred w (deviceTree c) (dead c) of
                  Inr result \<Rightarrow> if \<not> result then c else settle i Done (dettach i c)
                | Inl e \<Rightarrow> settle i (Failed e) (dettach i c)))"

definition wait :: "predicate \<Rightarrow> bool \<Rightarrow> conn \<Rightarrow> error option \<times> conn" where
  \<comment> \<open>\<^verbatim>\<open>IndiConnection.wait\<close> followed by the start of the promise it returns; an exception
      of the first evaluation of the predicate leaves the start function\<close>
  "wait predicate allowDisconnectionState c =
     (let i = waiterId c;
          c1 = c\<lparr> waiterId := waiterId c + 1,
                  waiters := AList.update i \<lparr> w_pred = predicate,
                     w_allow = allowDisconnectionState, w_listener = False,
                     w_state = Pending \<rparr> (waiters c) \<rparr>
      in if dead c1 \<and> \<not> allowDisconnectionState
         then (None, settle i (Failed (Thrown ''Indi server disconnected'')) c1)
         else (case predicate (deviceTree c1) (dead c1) of
                 Inl e \<Rightarrow> (Some e, c1)
               | Inr result \<Rightarrow>
                   if \<not> result then
                     (None, addListener (WaitL i)
                        (c1\<lparr> waiters := AList.map_entry i (\<lambda>w. w\<lparr> w_listener := True \<rparr>)
                                           (waiters c1) \<rparr>))
                   else (None, settle i Done c1)))"

definition refreshStatus :: "conn \<Rightarrow> conn" where
  \<comment> \<open>\<^verbatim>\<open>IndiManager.refreshStatus\<close>; \<^verbatim>\<open>clear\<close> deletes every key of the shared tree object.
      The callbacks of other modules it then calls are not modelled.\<close>
  "refreshStatus c =
     (if \<not> mgrConnection c then c\<lparr> mgrStatus := ''error'', deviceTree := [] \<rparr>
      else if \<not> connected c then c\<lparr> mgrStatus := ''connecting'', deviceTree := [] \<rparr>
      else c\<lparr> mgrStatus := ''connected'' \<rparr>)"

definition invoke :: "ext \<Rightarrow> lid \<Rightarrow> conn \<Rightarrow> error option \<times> conn" where
  \<comment> \<open>the call \<^verbatim>\<open>todo()\<close>\<close>
  "invoke ext todo c =
     (case todo of
        WaitL i \<Rightarrow> (None, wait_listener i c)
      | RefreshL \<Rightarrow> (None, refreshStatus c)
      | ExtL n \<Rightarrow> run_actions (ext n c) c)"

definition checking_length :: "conn \<Rightarrow> nat" where
  "checking_length c = (case checkingListeners c of None \<Rightarrow> 0 | Some cl \<Rightarrow> length cl)"

lemma removeListener_checking_length:
  "checking_length (removeListener f c) \<le> checking_length c"
  by (simp add: checking_length_def removeListener_def length_remove1 split: option.splits)

lemma run_actions_checking_length:
  "checking_length (snd (run_actions acts c)) \<le> checking_length c"
proof (induction acts c rule: run_actions.induct)
  case (3 f rest c)
  then show ?case
    using removeListener_checking_length [of f c] by simp
qed (simp_all add: checking_length_def addListener_def)

lemma wait_listener_checking_length:
  "checking_length (wait_listener i c) \<le> checking_length c"
  using removeListener_checking_length [of "WaitL i" c]
  by (simp add: wait_listener_def dettach_def settle_def checking_length_def
           split: option.splits sum.splits)

lemma invoke_checking_length:
  "checking_length (snd (invoke ext todo c)) \<le> checking_length c"
  using run_actions_checking_length wait_listener_checking_length
  by (cases todo) (simp_all add: invoke_def refreshStatus_def checking_length_def)

text \<open>The callback \<^verbatim>\<open>checkListeners\<close> gives to \<^verbatim>\<open>process.nextTick\<close>: while the snapshot is not
  empty its last entry is taken out and called. An exception of a listener leaves the loop.\<close>

function tick_loop :: "ext \<Rightarrow> conn \<Rightarrow> error option \<times> conn" where
  "tick_loop ext c =
     (case checkingListeners c of
        None \<Rightarrow> (None, c)
      | Some cl \<Rightarrow>
          if length cl = 0 then (None, c)
          else (case invoke ext (last cl)
                       (c\<lparr> checkingListeners := Some (butlast cl),
                           invoked := invoked c @ [last cl] \<rparr>) of
                  (Some e, c2) \<Rightarrow> (Some e, c2)
                | (None, c2) \<Rightarrow> tick_loop ext c2))"
  by pat_completeness auto
termination
proof (relation "measure (\<lambda>(ext, c). checking_length c)")
  show "wf (measure (\<lambda>(ext, c). checking_length c))" by simp
next
  fix ext :: ext and c :: conn and cl x c2
  assume a: "checkingListeners c = Some cl" "length cl \<noteq> 0"
     and b: "(x, c2) = invoke ext (last cl)
               (c\<lparr> checkingListeners := Some (butlast cl), invoked := invoked c @ [last cl] \<rparr>)"
  let ?c1 = "c\<lparr> checkingListeners := Some (butlast cl), invoked := invoked c @ [last cl] \<rparr>"
  have "checking_length c2 \<le> checking_length ?c1"
    using invoke_checking_length [of ext "last cl" ?c1] b [symmetric] by simp
  moreover have "checking_length ?c1 < checking_length c"
    using a by (simp add: checking_length_def)
  ultimately show "((ext, c2), (ext, c)) \<in> measure (\<lambda>(ext, c). checking_length c)"
    by simp
qed

declare tick_loop.simps [simp del]

definition tick :: "ext \<Rightarrow> conn \<Rightarrow> error option \<times> conn" where
  \<comment> \<open>one scheduled callback runs\<close>
  "tick ext c = tick_loop ext (c\<lparr> pendingTicks := pendingTicks c - 1 \<rparr>)"

section \<open>Socket events\<close>

definition socket_connect :: "conn \<Rightarrow> conn" where
  \<comment> \<open>the handler of the socket's \<^verbatim>\<open>connect\<close> event\<close>
  "socket_connect c =
     (let c1 = c\<lparr> connected := True, socketOut := socketOut c @ [GetProperties] \<rparr>;
          c2 = flushQueue c1
      in c2\<lparr> globalRevisionId := globalRevisionId c2 + 1 \<rparr>)"

definition socket_close :: "conn \<Rightarrow> conn" where
  \<comment> \<open>the handler of the socket's \<^verbatim>\<open>close\<close> event\<close>
  "socket_close c =
     checkListeners (c\<lparr> globalRevisionId := globalRevisionId c + 1, connected := False,
                       queue := [], dead := True \<rparr>)"

section \<open>One dispatch pass\<close>

definition dispatch_pass :: "ext \<Rightarrow> conn \<Rightarrow> error option \<times> conn" where
  \<comment> \<open>\<^verbatim>\<open>checkListeners\<close> and then the callback it scheduled, if it scheduled one\<close>
  "dispatch_pass ext c =
     (if length (listeners c) = 0 then (None, checkListeners c)
      else tick ext (checkListeners c))"

definition removed_by :: "ext \<Rightarrow> lid \<Rightarrow> conn \<Rightarrow> lid \<Rightarrow> bool" where
  \<comment> \<open>listener \<open>todo\<close>, called in state \<open>c\<close> and not throwing, calls \<^verbatim>\<open>removeListener\<close> on
      \<open>l\<close>; the listener of a wait removes no listener but itself\<close>
  "removed_by ext todo c l =
     (case todo of
        WaitL i \<Rightarrow> l = WaitL i
      | RefreshL \<Rightarrow> False
      | ExtL n \<Rightarrow> RemoveListener l \<in> set (ext n c))"

section \<open>The lifetime of the process as a sequence of events\<close>

definition isDead :: predicate where
  \<comment> \<open>the predicate \<^verbatim>\<open>() => indiConnection.isDead()\<close> of \<^verbatim>\<open>IndiManager.lifecycle\<close>\<close>
  "isDead t d = Inr d"

definition lifecycle_start :: "conn \<Rightarrow> conn" where
  \<comment> \<open>one round of \<^verbatim>\<open>IndiManager.lifecycle\<close> up to its first await: a new connection on the
      tree object of the manager, the listener that refreshes the status, the message
      listener, and the wait for the connection to die (the call also passes a
      cancellation token, which the \<^verbatim>\<open>wait\<close> of the sources does not take). The revision
      counter is global and goes on.\<close>
  "lifecycle_start c =
     (let c1 = (newConnection (globalRevisionId c))
                 \<lparr> deviceTree := deviceTree c, mgrStatus := mgrStatus c \<rparr>;
          c2 = addListener RefreshL c1;
          c3 = c2\<lparr> messageListeners := messageListeners c2 @ [0] \<rparr>
      in snd (wait isDead True c3))"

datatype event =
    Lifecycle
  | Connect
  | Close
  | Message message
  | Tick
  | SetValues string string "(string \<times> string) list"
  | Wait predicate bool
  | AddL lid
  | RemoveL lid
  | Refresh

fun step :: "ext \<Rightarrow> event \<Rightarrow> conn \<Rightarrow> conn" where
  "step ext Lifecycle c = lifecycle_start c"
| "step ext Connect c = socket_connect c"
| "step ext Close c = socket_close c"
| "step ext (Message m) c = snd (onMessage m c)"
| "step ext Tick c = (if pendingTicks c = 0 then c else snd (tick ext c))"
| "step ext (SetValues device vectorId affectations) c =
     snd (setValues device vectorId affectations c)"
| "step ext (Wait predicate allow) c = snd (wait predicate allow c)"
| "step ext (AddL f) c = addListener f c"
| "step ext (RemoveL f) c = removeListener f c"
| "step ext Refresh c = refreshStatus c"

fun bumps :: "event \<Rightarrow> bool" where
  "bumps Connect = True"
| "bumps Close = True"
| "bumps (Message m) = True"
| "bumps e = False"

definition run :: "ext \<Rightarrow> event list \<Rightarrow> conn \<Rightarrow> conn" where
  "run ext es c = fold (step ext) es c"

section \<open>Sequences of messages and the latest definition of a vector\<close>

definition apply_messages :: "message list \<Rightarrow> conn \<Rightarrow> conn" where
  \<comment> \<open>the reducer called on each decoded message in turn\<close>
  "apply_messages ms c = fold (\<lambda>m c. snd (onMessage m c)) ms c"

definition def_applies :: "message \<Rightarrow> bool" where
  \<comment> \<open>a definition message the reducer stores: the tag is \<^verbatim>\<open>def...Vector\<close> and the array of
      child elements is there\<close>
  "def_applies m =
     (matches_vector ''def'' (m_tag m) \<and> has (m_elems m) (strip_Vector (m_tag m)))"

definition def_child_names :: "message \<Rightarrow> string list" where
  "def_child_names m =
     (case map_of (m_elems m) (strip_Vector (m_tag m)) of
        None \<Rightarrow> []
      | Some chs \<Rightarrow> map (\<lambda>child. key_of (el_name child)) chs)"

definition latest_def :: "message list \<Rightarrow> string \<Rightarrow> string \<Rightarrow> message option" where
  \<comment> \<open>the most recent definition applied for the vector \<open>v\<close> of device \<open>d\<close>\<close>
  "latest_def ms d v =
     find (\<lambda>m. def_applies m \<and> key_of (m_device m) = d \<and> key_of (m_name m) = v) (rev ms)"

section \<open>Notification uids: \<^verbatim>\<open>IndiManager.nextMessageUid\<close>\<close>

text \<open>\<^verbatim>\<open>serial.toString(16)\<close> of a non-negative integer: lower-case hexadecimal digits
  without leading zeros.\<close>

definition hex_digit :: "nat \<Rightarrow> char" where
  "hex_digit d = ''0123456789abcdef'' ! (d mod 16)"

fun to_hex :: "nat \<Rightarrow> string" where
  "to_hex n = (if n < 16 then [hex_digit n] else to_hex (n div 16) @ [hex_digit (n mod 16)])"

declare to_hex.simps [simp del]

text \<open>\<^verbatim>\<open>lastMessageStamp\<close> and \<^verbatim>\<open>lastMessageSerial\<close> are undefined together and assigned
  together: the state is the pair of them, if any. The clock reading
  \<^verbatim>\<open>new Date().getTime()\<close> and the rendering \<^verbatim>\<open>new Date(now).toISOString()\<close> of the
  platform are parameters.\<close>

type_synonym uid_state = "(int \<times> nat) option"

definition nextMessageUid :: "(int \<Rightarrow> string) \<Rightarrow> int \<Rightarrow> uid_state \<Rightarrow> string \<times> uid_state" where
  "nextMessageUid toISOString clock st =
     (let now = (case st of
                   None \<Rightarrow> clock
                 | Some (lastMessageStamp, lastMessageSerial) \<Rightarrow>
                     if lastMessageStamp > clock then lastMessageStamp else clock);
          serial = (case st of
                      None \<Rightarrow> 0
                    | Some (lastMessageStamp, lastMessageSerial) \<Rightarrow>
                        if lastMessageStamp = now then lastMessageSerial + 1 else 0);
          serialStr = to_hex serial;
          prefix = replicate (length serialStr - 1) (CHR ''Z'')
      in (toISOString now @ '':'' @ prefix @ serialStr, Some (now, serial)))"

fun uids :: "(int \<Rightarrow> string) \<Rightarrow> int list \<Rightarrow> uid_state \<Rightarrow> string list" where
  \<comment> \<open>the uids returned by successive calls at the given clock readings\<close>
  "uids toISOString [] st = []"
| "uids toISOString (clock # clocks) st =
     (case nextMessageUid toISOString clock st of
        (uid, st') \<Rightarrow> uid # uids toISOString clocks st')"

section \<open>The command sequencer: \<^verbatim>\<open>IndiManager.setParam\<close> and \<^verbatim>\<open>IndiManager.pulseParam\<close>\<close>

text \<open>
  These are \<^verbatim>\<open>async\<close> functions. While one of them is suspended at an \<^verbatim>\<open>await\<close>, socket
  events, the reducer and other callers change the connection; when it resumes, the
  awaited promise has resolved or has thrown (an error, or the cancellation of the
  token). The promises awaited here come from \<^verbatim>\<open>waitForVectors\<close> and \<^verbatim>\<open>connection.wait\<close>;
  each await is modelled by what the environment did to the state in the meantime and
  by the error thrown on resumption, if any. Nothing relates the two, so every resumption
  the real promises can produce is covered. Beside its result a function returns the
  \<^verbatim>\<open>setValues\<close> calls it has issued on the vector, in order.
\<close>

record await =
  aw_error :: "error option"
  aw_env :: "conn \<Rightarrow> conn"

type_synonym call = "string \<times> string \<times> (string \<times> string) list"

definition getValidConnection :: "conn \<Rightarrow> error option" where
  "getValidConnection c =
     (if \<not> mgrConnection c then Some (Error ''Indi server not connected'') else None)"

definition getVec :: "tree \<Rightarrow> string \<Rightarrow> string \<Rightarrow> error option" where
  \<comment> \<open>the local function \<^verbatim>\<open>getVec\<close> of both operations: the handle it returns is the pair of
      names, so only its check is modelled\<close>
  "getVec t devId vectorId =
     (if vectorId \<noteq> ''CONNECTION''
         \<and> getPropertyValueIfExists t devId ''CONNECTION'' ''CONNECT'' \<noteq> Str ''On''
      then Some (Error (''Device is not connected : '' @ devId))
      else None)"

subsection \<open>\<^verbatim>\<open>pulseParam\<close>\<close>

definition pulse_cleanup ::
  "string \<Rightarrow> string \<Rightarrow> string \<Rightarrow> error \<Rightarrow> bool \<Rightarrow> await \<Rightarrow> conn \<Rightarrow> error \<times> call list \<times> conn" where
  \<comment> \<open>the \<^verbatim>\<open>finally\<close> block, entered with the exception \<open>e\<close> in flight\<close>
  "pulse_cleanup devId vectorId propId e selfStopped w4 c =
     (if \<not> selfStopped then
        (case setValues devId vectorId [(propId, ''Off'')] c of
           (Some e', c1) \<Rightarrow> (e', [], c1)
         | (None, c1) \<Rightarrow>
             (case aw_error w4 of
                Some e' \<Rightarrow> (e', [(devId, vectorId, [(propId, ''Off'')])], aw_env w4 c1)
              | None \<Rightarrow> (e, [(devId, vectorId, [(propId, ''Off'')])], aw_env w4 c1)))
      else (e, [], c))"

definition pulse_on ::
  "string \<Rightarrow> string \<Rightarrow> string \<Rightarrow> await \<Rightarrow> await \<Rightarrow> conn \<Rightarrow> error \<times> call list \<times> conn" where
  \<comment> \<open>from \<^verbatim>\<open>vec.setValues([{name: propId, value:'On'}])\<close> to the end\<close>
  "pulse_on devId vectorId propId w3 w4 c =
     (case setValues devId vectorId [(propId, ''On'')] c of
        (Some e, c1) \<Rightarrow> (e, [], c1)
      | (None, c1) \<Rightarrow>
          (case (case aw_error w3 of
                   None \<Rightarrow>
                     pulse_cleanup devId vectorId propId
                       (Error (''Property stopped '' @ devId @ ''.'' @ vectorId @ ''.'' @ propId))
                       True w4 (aw_env w3 c1)
                 | Some e \<Rightarrow> pulse_cleanup devId vectorId propId e False w4 (aw_env w3 c1)) of
             (e, calls, c2) \<Rightarrow> (e, (devId, vectorId, [(propId, ''On'')]) # calls, c2)))"

definition pulseParam ::
  "string \<Rightarrow> string \<Rightarrow> string \<Rightarrow> await \<Rightarrow> await \<Rightarrow> await \<Rightarrow> await \<Rightarrow> conn
     \<Rightarrow> error \<times> call list \<times> conn" where
  \<comment> \<open>\<open>w1\<close>: \<^verbatim>\<open>waitForVectors\<close>; \<open>w2\<close>: the wait for the vector not to be busy; \<open>w3\<close>: the wait
      after "On"; \<open>w4\<close>: the wait after "Off". The function never returns normally.\<close>
  "pulseParam devId vectorId propId w1 w2 w3 w4 c =
     (case getValidConnection c of
        Some e \<Rightarrow> (e, [], c)
      | None \<Rightarrow>
     (case getVec (deviceTree c) devId vectorId of
        Some e \<Rightarrow> (e, [], c)
      | None \<Rightarrow>
     (case aw_error w1 of
        Some e \<Rightarrow> (e, [], aw_env w1 c)
      | None \<Rightarrow>
     (case aw_error w2 of
        Some e \<Rightarrow> (e, [], aw_env w2 (aw_env w1 c))
      | None \<Rightarrow>
     (let c2 = aw_env w2 (aw_env w1 c)
      in case getVec (deviceTree c2) devId vectorId of
           Some e \<Rightarrow> (e, [], c2)
         | None \<Rightarrow>
             (case getState (deviceTree c2) devId vectorId of
                Inl e \<Rightarrow> (e, [], c2)
              | Inr state \<Rightarrow>
                  if state = Some ''Busy'' then (Error ''Device is busy'', [], c2)
                  else pulse_on devId vectorId propId w3 w4 c2))))))"

subsection \<open>\<^verbatim>\<open>setParam\<close>\<close>

text \<open>The value map given to \<^verbatim>\<open>setParam\<close> is an object: an association list with one entry
  per key, a value being a string or \<^verbatim>\<open>null\<close>/\<^verbatim>\<open>undefined\<close> (\<open>None\<close>). The provider is such
  an object or a function of the vector, which here reads the tree.
  \<^verbatim>\<open>Object.keys(value).sort()\<close> sorts the keys as strings, by character code.\<close>

type_synonym dict = "(string \<times> string option) list"

datatype provider = Static dict | Dynamic "tree \<Rightarrow> dict"

definition provided :: "provider \<Rightarrow> tree \<Rightarrow> dict" where
  \<comment> \<open>\<^verbatim>\<open>typeof valueProvider === "function" ? valueProvider(vec) : valueProvider\<close>\<close>
  "provided valueProvider t = (case valueProvider of Static d \<Rightarrow> d | Dynamic f \<Rightarrow> f t)"

fun todo_loop ::
  "bool \<Rightarrow> tree \<Rightarrow> string \<Rightarrow> string \<Rightarrow> dict \<Rightarrow> string list \<Rightarrow> (string \<times> string) list
     \<Rightarrow> (string \<times> string) list" where
  "todo_loop force t devId vectorId value [] todo = todo"
| "todo_loop force t devId vectorId value (key # keys) todo =
     (case map_of value key of
        None \<Rightarrow> todo_loop force t devId vectorId value keys todo
      | Some None \<Rightarrow> todo_loop force t devId vectorId value keys todo
      | Some (Some v) \<Rightarrow>
          if force \<or> getPropertyValueIfExists t devId vectorId key \<noteq> Str v
          then todo_loop force t devId vectorId value keys (todo @ [(key, v)])
          else todo_loop force t devId vectorId value keys todo)"

definition setParam_write ::
  "string \<Rightarrow> string \<Rightarrow> provider \<Rightarrow> bool \<Rightarrow> bool \<Rightarrow> bool \<Rightarrow> bool \<Rightarrow> await \<Rightarrow> conn
     \<Rightarrow> (error + (string \<times> string) list) \<times> call list \<times> conn" where
  \<comment> \<open>from \<^verbatim>\<open>const vec = getVec()\<close> to the end. \<open>cancelator\<close>: a cancelator was given;
      \<open>cancelled1\<close>, \<open>cancelled2\<close>: the token is cancelled at the first and at the second
      \<^verbatim>\<open>throwIfCancelled\<close>; \<open>w3\<close>: the wait after the write\<close>
  "setParam_write devId vectorId valueProvider force cancelator cancelled1 cancelled2 w3 c =
     (case getVec (deviceTree c) devId vectorId of
        Some e \<Rightarrow> (Inl e, [], c)
      | None \<Rightarrow>
     (case getState (deviceTree c) devId vectorId of
        Inl e \<Rightarrow> (Inl e, [], c)
      | Inr state \<Rightarrow>
     (if state = Some ''Busy'' then (Inl (Error ''Device is busy''), [], c)
      else
        (let value = provided valueProvider (deviceTree c);
             todo = todo_loop force (deviceTree c) devId vectorId value (sort (map fst value)) []
         in if length todo = 0 then (Inr todo, [], c)
            else
              (case setValues devId vectorId todo c of
                 (Some e, c1) \<Rightarrow> (Inl e, [], c1)
               | (None, c1) \<Rightarrow>
                   if cancelator \<and> cancelled1
                   then (Inl CancellationError, [(devId, vectorId, todo)], c1)
                   else
                     (case aw_error w3 of
                        Some e \<Rightarrow> (Inl e, [(devId, vectorId, todo)], aw_env w3 c1)
                      | None \<Rightarrow>
                          if cancelator \<and> cancelled2
                          then (Inl CancellationError, [(devId, vectorId, todo)], aw_env w3 c1)
                          else (Inr todo, [(devId, vectorId, todo)], aw_env w3 c1)))))))"

definition setParam ::
  "string \<Rightarrow> string \<Rightarrow> provider \<Rightarrow> bool \<Rightarrow> bool \<Rightarrow> bool \<Rightarrow> bool \<Rightarrow> bool
     \<Rightarrow> await \<Rightarrow> await \<Rightarrow> await \<Rightarrow> conn
     \<Rightarrow> (error + (string \<times> string) list) \<times> call list \<times> conn" where
  \<comment> \<open>\<open>w1\<close>: \<^verbatim>\<open>waitForVectors\<close>; \<open>w2\<close>: the wait for the vector not to be busy, skipped when
      \<open>nowait\<close>\<close>
  "setParam devId vectorId valueProvider force nowait cancelator cancelled1 cancelled2
            w1 w2 w3 c =
     (case getValidConnection c of
        Some e \<Rightarrow> (Inl e, [], c)
      | None \<Rightarrow>
     (case getVec (deviceTree c) devId vectorId of
        Some e \<Rightarrow> (Inl e, [], c)
      | None \<Rightarrow>
     (case aw_error w1 of
        Some e \<Rightarrow> (Inl e, [], aw_env w1 c)
      | None \<Rightarrow>
     (if \<not> nowait then
        (case aw_error w2 of
           Some e \<Rightarrow> (Inl e, [], aw_env w2 (aw_env w1 c))
         | None \<Rightarrow>
             setParam_write devId vectorId valueProvider force cancelator cancelled1 cancelled2
               w3 (aw_env w2 (aw_env w1 c)))
      else
        setParam_write devId vectorId valueProvider force cancelator cancelled1 cancelled2
          w3 (aw_env w1 c)))))"

definition diff_state :: "bool \<Rightarrow> await \<Rightarrow> await \<Rightarrow> conn \<Rightarrow> conn" where
  \<comment> \<open>the state in which \<^verbatim>\<open>setParam\<close> resumes after its waits and compares the values\<close>
  "diff_state nowait w1 w2 c = (if \<not> nowait then aw_env w2 (aw_env w1 c) else aw_env w1 c)"

definition pulse_state :: "string \<Rightarrow> string \<Rightarrow> string \<Rightarrow> await \<Rightarrow> await \<Rightarrow> await \<Rightarrow> conn \<Rightarrow> conn" where
  \<comment> \<open>the state in which \<^verbatim>\<open>pulseParam\<close> resumes from the wait that follows "On"\<close>
  "pulse_state devId vectorId propId w1 w2 w3 c =
     aw_env w3 (snd (setValues devId vectorId [(propId, ''On'')] (aw_env w2 (aw_env w1 c))))"


section \<open>The trace of a dispatch pass\<close>

text \<open>The calls made by the callback, in order: each listener called together with the
  state it is called in. The recursion is the one of \<open>tick_loop\<close>.\<close>

function tick_trace :: "ext \<Rightarrow> conn \<Rightarrow> (lid \<times> conn) list" where
  "tick_trace ext c =
     (case checkingListeners c of
        None \<Rightarrow> []
      | Some cl \<Rightarrow>
          if length cl = 0 then []
          else (case invoke ext (last cl)
                       (c\<lparr> checkingListeners := Some (butlast cl),
                           invoked := invoked c @ [last cl] \<rparr>) of
                  (Some e, c2) \<Rightarrow>
                    [(last cl, c\<lparr> checkingListeners := Some (butlast cl),
                                   invoked := invoked c @ [last cl] \<rparr>)]
                | (None, c2) \<Rightarrow>
                    (last cl, c\<lparr> checkingListeners := Some (butlast cl),
                                  invoked := invoked c @ [last cl] \<rparr>) # tick_trace ext c2))"
  by pat_completeness auto
termination
proof (relation "measure (\<lambda>(ext, c). checking_length c)")
  show "wf (measure (\<lambda>(ext, c). checking_length c))" by simp
next
  fix ext :: ext and c :: conn and cl x c2
  assume a: "checkingListeners c = Some cl" "length cl \<noteq> 0"
     and b: "(x, c2) = invoke ext (last cl)
               (c\<lparr> checkingListeners := Some (butlast cl), invoked := invoked c @ [last cl] \<rparr>)"
  let ?c1 = "c\<lparr> checkingListeners := Some (butlast cl), invoked := invoked c @ [last cl] \<rparr>"
  have "checking_length c2 \<le> checking_length ?c1"
    using invoke_checking_length [of ext "last cl" ?c1] b [symmetric] by simp
  moreover have "checking_length ?c1 < checking_length c"
    using a by (simp add: checking_length_def)
  ultimately show "((ext, c2), (ext, c)) \<in> measure (\<lambda>(ext, c). checking_length c)"
    by simp
qed

declare tick_trace.simps [simp del]

definition pass_trace :: "ext \<Rightarrow> conn \<Rightarrow> (lid \<times> conn) list" where
  \<comment> \<open>the calls made by \<open>tick\<close>\<close>
  "pass_trace ext c = tick_trace ext (c\<lparr> pendingTicks := pendingTicks c - 1 \<rparr>)"

definition removed_before :: "ext \<Rightarrow> (lid \<times> conn) list \<Rightarrow> lid list \<Rightarrow> lid \<Rightarrow> bool" where
  \<comment> \<open>in the trace \<open>tr\<close> of a pass that calls the listeners in the order \<open>order\<close>, a listener
      whose turn comes before that of \<open>l\<close> has called \<^verbatim>\<open>removeListener\<close> on \<open>l\<close>\<close>
  "removed_before ext tr order l =
     list_ex (\<lambda>(todo, s). todo \<in> set (takeWhile (\<lambda>x. x \<noteq> l) order) \<and> removed_by ext todo s l)
       tr"



section \<open>Example data\<close>

definition connect_elem :: "string \<Rightarrow> element" where
  "connect_elem v = \<lparr> el_name = Some ''CONNECT'', el_label = None, el_text = Some v \<rparr>"

definition ccd_tree :: tree where
  "ccd_tree = [(''CCD'', [(''CONNECTION'',
      \<lparr> v_type = ''Switch'', v_state = Some ''Idle'', v_timeout = Undefined,
        v_timestamp = None, v_message = None, v_rev = 1,
        childs = [(''CONNECT'', connect_elem ''Off'')],
        childNames = [Some ''CONNECT''] \<rparr>)])]"

definition ccd_conn :: conn where
  "ccd_conn = (newConnection 1)\<lparr> deviceTree := ccd_tree, connected := True,
                                 listeners := [RefreshL, ExtL 0] \<rparr>"

definition set_msg :: "string \<Rightarrow> string \<Rightarrow> message" where
  "set_msg d n = \<lparr> m_tag = ''setSwitchVector'', m_device = Some d, m_name = Some n,
      m_state = Some ''Ok'', m_timeout = None, m_timestamp = None, m_message = None,
      m_elems = [(''oneSwitch'', [connect_elem ''On''])] \<rparr>"

definition del_msg :: "string \<Rightarrow> string option \<Rightarrow> message" where
  "del_msg d n = \<lparr> m_tag = ''delProperty'', m_device = Some d, m_name = n,
      m_state = None, m_timeout = None, m_timestamp = None, m_message = None, m_elems = [] \<rparr>"

definition note_msg :: "string \<Rightarrow> message" where
  "note_msg txt = \<lparr> m_tag = ''message'', m_device = Some ''CCD'', m_name = None,
      m_state = None, m_timeout = None, m_timestamp = None, m_message = Some txt,
      m_elems = [] \<rparr>"

definition removal_ext :: ext where
  \<comment> \<open>listener 1 removes listener 0, listener 2 removes itself\<close>
  "removal_ext n c = (if n = 1 then [RemoveListener (ExtL 0)]
                      else if n = 2 then [RemoveListener (ExtL 2)] else [])"

definition removal_conn :: conn where
  "removal_conn = (newConnection 0)\<lparr> listeners := [ExtL 0, ExtL 1, ExtL 2] \<rparr>"

definition switch_elem :: "string \<Rightarrow> string \<Rightarrow> element" where
  "switch_elem n v = \<lparr> el_name = Some n, el_label = None, el_text = Some v \<rparr>"

definition def_msg :: message where
  "def_msg = \<lparr> m_tag = ''defSwitchVector'', m_device = Some ''CCD'',
      m_name = Some ''CONNECTION'', m_state = Some ''Idle'', m_timeout = Some ''60'',
      m_timestamp = None, m_message = None,
      m_elems = [(''defSwitch'', [switch_elem ''CONNECT'' ''Off'',
                                  switch_elem ''DISCONNECT'' ''On''])] \<rparr>"

definition upd_msg :: message where
  \<comment> \<open>an update that also names a child the definition does not have\<close>
  "upd_msg = \<lparr> m_tag = ''setSwitchVector'', m_device = Some ''CCD'',
      m_name = Some ''CONNECTION'', m_state = Some ''Ok'', m_timeout = None,
      m_timestamp = None, m_message = None,
      m_elems = [(''oneSwitch'', [switch_elem ''CONNECT'' ''On'',
                                  switch_elem ''PARK'' ''On''])] \<rparr>"

definition sample_msgs :: "message list" where
  "sample_msgs = [def_msg, upd_msg, del_msg ''Mount'' None]"

definition connection_vector :: vector where
  "connection_vector =
     \<lparr> v_type = ''Switch'', v_state = Some ''Ok'', v_timeout = Num 0, v_timestamp = None,
       v_message = None, v_rev = 2,
       childs = [(''CONNECT'', switch_elem ''CONNECT'' ''On''),
                 (''DISCONNECT'', switch_elem ''DISCONNECT'' ''On'')],
       childNames = [Some ''CONNECT'', Some ''DISCONNECT''] \<rparr>"

definition vector_exists :: "string \<Rightarrow> string \<Rightarrow> predicate" where
  \<comment> \<open>a predicate that waits for a vector to exist, as a caller of \<^verbatim>\<open>wait\<close> writes it\<close>
  "vector_exists d v t isdead = Inr (exists_vec t d v)"

definition close_events :: "event list" where
  \<comment> \<open>the manager opens a connection, the server defines a vector, a caller waits for
      another vector with \<^verbatim>\<open>allowDisconnectionState\<close> false, the socket closes and the
      dispatch pass it schedules runs\<close>
  "close_events = [Lifecycle, Connect, Message def_msg, Tick,
                   Wait (vector_exists ''CCD'' ''CCD_EXPOSURE'') False, Close, Tick]"

definition motion_vector :: vector where
  "motion_vector =
     \<lparr> v_type = ''Switch'', v_state = Some ''Idle'', v_timeout = Undefined, v_timestamp = None,
       v_message = None, v_rev = 3,
       childs = [(''MOTION_NORTH'', switch_elem ''MOTION_NORTH'' ''Off''),
                 (''MOTION_SOUTH'', switch_elem ''MOTION_SOUTH'' ''Off'')],
       childNames = [Some ''MOTION_NORTH'', Some ''MOTION_SOUTH''] \<rparr>"

definition mount_conn :: conn where
  \<comment> \<open>a connected mount with an idle motion vector\<close>
  "mount_conn = (newConnection 3)
     \<lparr> deviceTree := [(''Mount'', [(''CONNECTION'', connection_vector),
                                   (''TELESCOPE_MOTION_NS'', motion_vector)])],
       connected := True \<rparr>"

definition motion_ok_msg :: message where
  \<comment> \<open>the server reports the motion vector no longer busy\<close>
  "motion_ok_msg = \<lparr> m_tag = ''setSwitchVector'', m_device = Some ''Mount'',
      m_name = Some ''TELESCOPE_MOTION_NS'', m_state = Some ''Ok'', m_timeout = None,
      m_timestamp = None, m_message = None,
      m_elems = [(''oneSwitch'', [switch_elem ''MOTION_NORTH'' ''Off''])] \<rparr>"

definition quiet :: await where
  "quiet = \<lparr> aw_error = None, aw_env = (\<lambda>c. c) \<rparr>"

definition stopped :: await where
  \<comment> \<open>the wait resolves after the server's update\<close>
  "stopped = \<lparr> aw_error = None, aw_env = (\<lambda>c. snd (onMessage motion_ok_msg c)) \<rparr>"

definition cancelled :: await where
  "cancelled = \<lparr> aw_error = Some CancellationError, aw_env = (\<lambda>c. c) \<rparr>"




section \<open>Properties of the Vector handle\<close>

text \<open>
  C10. Calling \<^verbatim>\<open>Vector.setValues\<close> when the vector (or its device) is absent from the tree
  throws "Property not found: device/vector" and has no effect: the whole state is
  returned as it was, so no vector is marked Busy and nothing is added to the outgoing
  queue or written to the socket.
\<close>

theorem setValues_absent_throws:
  assumes "getVectorInTree (deviceTree c) device vectorId = None"
  shows "setValues device vectorId affectations c =
           (Some (Error (''Property not found: '' @ device @ ''/'' @ vectorId)), c)"
  using assms by (simp add: setValues_def getExistingVectorInTree_def)

theorem setValues_absent_throws_witness:
  "getVectorInTree (deviceTree (newConnection 0)) ''CCD'' ''CCD_EXPOSURE'' = None
   \<and> setValues ''CCD'' ''CCD_EXPOSURE'' [(''CCD_EXPOSURE_VALUE'', ''10'')] (newConnection 0) =
       (Some (Error ''Property not found: CCD/CCD_EXPOSURE''), newConnection 0)"
proof -
  have h: "getVectorInTree (deviceTree (newConnection 0)) ''CCD'' ''CCD_EXPOSURE'' = None"
    by (simp add: getVectorInTree_def has_def newConnection_def)
  show ?thesis
    using h setValues_absent_throws [OF h, of "[(''CCD_EXPOSURE_VALUE'', ''10'')]"] by simp
qed

section \<open>Properties of the reducer\<close>

lemma set_tag_excl:
  assumes "matches_vector ''set'' t"
  shows "t \<noteq> ''message''" "\<not> matches_vector ''def'' t" "t \<noteq> ''delProperty''"
  using assms by (auto simp: matches_vector_def)

lemma def_branch_not_def: "\<not> matches_vector ''def'' (m_tag m) \<Longrightarrow> def_branch m c = (Next, c)"
  by (simp add: def_branch_def)

lemma del_branch_not_del: "m_tag m \<noteq> ''delProperty'' \<Longrightarrow> del_branch m c = (Next, c)"
  by (simp add: del_branch_def)

lemma set_branch_unknown:
  assumes "matches_vector ''set'' (m_tag m)"
      and "getVectorInTree (deviceTree c) (key_of (m_device m)) (key_of (m_name m)) = None"
  shows "set_branch m c = (Return, c)"
  using assms
  by (auto simp: set_branch_def getVectorInTree_def has_def Let_def split: option.splits if_splits)

lemma reduce_set_unknown:
  assumes "matches_vector ''set'' (m_tag m)"
      and "getVectorInTree (deviceTree c) (key_of (m_device m)) (key_of (m_name m)) = None"
  shows "reduce m c = (Return, c)"
  using set_tag_excl [OF assms(1)] set_branch_unknown [OF assms]
  by (simp add: reduce_def def_branch_not_def del_branch_not_del)

lemma reduce_del_unknown:
  assumes "m_tag m = ''delProperty''"
      and "\<not> has (deviceTree c) (key_of (m_device m))
           \<or> (m_name m \<noteq> None
               \<and> getVectorInTree (deviceTree c) (key_of (m_device m)) (key_of (m_name m)) = None)"
  shows "reduce m c = (Return, c)"
proof -
  have nd: "\<not> matches_vector ''def'' (m_tag m)"
    using assms(1) by (simp add: matches_vector_def)
  have "del_branch m c = (Return, c)"
    using assms
    by (auto simp: del_branch_def getVectorInTree_def has_def key_of_def split: option.splits)
  then show ?thesis
    using assms(1) by (simp add: reduce_def def_branch_not_def [OF nd])
qed

lemma def_branch_frame:
  assumes "def_branch m c = (f, c')"
  shows "globalRevisionId c' = globalRevisionId c \<and> pendingTicks c' = pendingTicks c
         \<and> checkingListeners c' = checkingListeners c \<and> listeners c' = listeners c"
  using assms by (auto simp: def_branch_def Let_def split: if_splits option.splits)

lemma del_branch_frame:
  assumes "del_branch m c = (f, c')"
  shows "globalRevisionId c' = globalRevisionId c \<and> pendingTicks c' = pendingTicks c
         \<and> checkingListeners c' = checkingListeners c \<and> listeners c' = listeners c"
  using assms by (auto simp: del_branch_def split: if_splits option.splits)

lemma set_branch_frame:
  assumes "set_branch m c = (f, c')"
  shows "globalRevisionId c' = globalRevisionId c \<and> pendingTicks c' = pendingTicks c
         \<and> checkingListeners c' = checkingListeners c \<and> listeners c' = listeners c"
  using assms by (auto simp: set_branch_def Let_def split: if_splits option.splits)

lemma reduce_frame:
  assumes "reduce m c = (f, c')"
  shows "globalRevisionId c' = globalRevisionId c \<and> pendingTicks c' = pendingTicks c
         \<and> checkingListeners c' = checkingListeners c \<and> listeners c' = listeners c"
proof (cases "m_tag m = ''message''")
  case True
  with assms show ?thesis by (auto simp: reduce_def dispatchMessage_def)
next
  case False
  obtain f1 c1 where d: "def_branch m c = (f1, c1)" by (cases "def_branch m c")
  obtain f2 c2 where e: "del_branch m c1 = (f2, c2)" by (cases "del_branch m c1")
  obtain f3 c3 where s: "set_branch m c2 = (f3, c3)" by (cases "set_branch m c2")
  note fr = def_branch_frame [OF d] del_branch_frame [OF e] set_branch_frame [OF s]
  from assms False d e s have "c' = c1 \<or> c' = c2 \<or> c' = c3"
    by (auto simp: reduce_def split: flow.splits)
  with fr show ?thesis by auto
qed

lemma checkListeners_revision: "globalRevisionId (checkListeners c) = globalRevisionId c"
  by (simp add: checkListeners_def Let_def)

lemma checkListeners_ticks:
  "pendingTicks (checkListeners c) = pendingTicks c + (if listeners c \<noteq> [] then 1 else 0)"
  by (simp add: checkListeners_def Let_def)

lemma onMessage_revision: "globalRevisionId (snd (onMessage m c)) = globalRevisionId c + 1"
proof -
  obtain f c' where r: "reduce m (c\<lparr> globalRevisionId := globalRevisionId c + 1 \<rparr>) = (f, c')"
    by (cases "reduce m (c\<lparr> globalRevisionId := globalRevisionId c + 1 \<rparr>)")
  from reduce_frame [OF r] have "globalRevisionId c' = globalRevisionId c + 1" by simp
  with r show ?thesis
    by (cases f) (simp_all add: onMessage_def checkListeners_revision)
qed

lemma onMessage_ticks:
  "pendingTicks (snd (onMessage m c)) =
     pendingTicks c
     + (if fst (reduce m (c\<lparr> globalRevisionId := globalRevisionId c + 1 \<rparr>)) = Next
           \<and> listeners c \<noteq> [] then 1 else 0)"
proof -
  obtain f c' where r: "reduce m (c\<lparr> globalRevisionId := globalRevisionId c + 1 \<rparr>) = (f, c')"
    by (cases "reduce m (c\<lparr> globalRevisionId := globalRevisionId c + 1 \<rparr>)")
  from reduce_frame [OF r] have "pendingTicks c' = pendingTicks c" "listeners c' = listeners c"
    by simp_all
  with r show ?thesis
    by (cases f) (simp_all add: onMessage_def checkListeners_ticks)
qed

lemma reduce_returns_early:
  assumes "returns_early m (deviceTree c)"
  shows "reduce m c = (Return, if m_tag m = ''message'' then dispatchMessage m c else c)"
proof (cases "m_tag m = ''message''")
  case True
  then show ?thesis by (simp add: reduce_def)
next
  case False
  with assms reduce_set_unknown [of m c] reduce_del_unknown [of m c] show ?thesis
    by (auto simp: returns_early_def)
qed

lemma sample_set_tag: "matches_vector ''set'' (m_tag (set_msg d n))"
  by (simp add: matches_vector_def set_msg_def line_terminator_def)

lemma sample_unknown_vector:
  "getVectorInTree (deviceTree ccd_conn) (key_of (m_device (set_msg ''CCD'' ''CCD_EXPOSURE'')))
     (key_of (m_name (set_msg ''CCD'' ''CCD_EXPOSURE''))) = None"
  by (simp add: getVectorInTree_def has_def set_msg_def key_of_def ccd_tree_def ccd_conn_def)

text \<open>
  C8. An update (\<^verbatim>\<open>set...Vector\<close>) message whose device or vector is not in the tree is
  ignored: \<^verbatim>\<open>onMessage\<close> throws nothing and returns the state it was given with only the
  revision counter incremented, so the device tree is unchanged.
\<close>

theorem update_unknown_ignored:
  assumes "matches_vector ''set'' (m_tag message)"
      and "getVectorInTree (deviceTree c) (key_of (m_device message))
             (key_of (m_name message)) = None"
  shows "onMessage message c = (None, c\<lparr> globalRevisionId := globalRevisionId c + 1 \<rparr>)
         \<and> deviceTree (snd (onMessage message c)) = deviceTree c"
proof -
  let ?c0 = "c\<lparr> globalRevisionId := globalRevisionId c + 1 \<rparr>"
  have "getVectorInTree (deviceTree ?c0) (key_of (m_device message))
          (key_of (m_name message)) = None"
    using assms(2) by simp
  from reduce_set_unknown [OF assms(1) this] show ?thesis
    by (simp add: onMessage_def)
qed

theorem update_unknown_ignored_witness:
  "matches_vector ''set'' (m_tag (set_msg ''CCD'' ''CCD_EXPOSURE''))
   \<and> getVectorInTree (deviceTree ccd_conn) (key_of (m_device (set_msg ''CCD'' ''CCD_EXPOSURE'')))
        (key_of (m_name (set_msg ''CCD'' ''CCD_EXPOSURE''))) = None
   \<and> fst (onMessage (set_msg ''CCD'' ''CCD_EXPOSURE'') ccd_conn) = None
   \<and> deviceTree (snd (onMessage (set_msg ''CCD'' ''CCD_EXPOSURE'') ccd_conn)) = ccd_tree"
  using update_unknown_ignored [OF sample_set_tag sample_unknown_vector]
        sample_set_tag sample_unknown_vector
  by (simp add: ccd_conn_def)

text \<open>
  C9. \<^verbatim>\<open>onMessage\<close> increments the global revision counter exactly once for every decoded
  message. A dispatch pass is scheduled only when the message reaches the final
  \<^verbatim>\<open>checkListeners\<close> call (and a listener is registered): a broadcast note, an update for an
  unknown device or vector and a deletion for an unknown device or vector return before
  it, so the counter is bumped while no pass is scheduled and the snapshot of listeners
  is left as it was.
\<close>

theorem onMessage_bump_and_dispatch:
  "globalRevisionId (snd (onMessage message c)) = globalRevisionId c + 1
   \<and> pendingTicks (snd (onMessage message c)) =
       pendingTicks c
       + (if fst (reduce message (c\<lparr> globalRevisionId := globalRevisionId c + 1 \<rparr>)) = Next
             \<and> listeners c \<noteq> [] then 1 else 0)
   \<and> (returns_early message (deviceTree c) \<longrightarrow>
        fst (reduce message (c\<lparr> globalRevisionId := globalRevisionId c + 1 \<rparr>)) = Return
        \<and> pendingTicks (snd (onMessage message c)) = pendingTicks c
        \<and> checkingListeners (snd (onMessage message c)) = checkingListeners c)"
proof (intro conjI impI)
  show "globalRevisionId (snd (onMessage message c)) = globalRevisionId c + 1"
    by (rule onMessage_revision)
  show "pendingTicks (snd (onMessage message c)) =
       pendingTicks c
       + (if fst (reduce message (c\<lparr> globalRevisionId := globalRevisionId c + 1 \<rparr>)) = Next
             \<and> listeners c \<noteq> [] then 1 else 0)"
    by (rule onMessage_ticks)
next
  let ?c0 = "c\<lparr> globalRevisionId := globalRevisionId c + 1 \<rparr>"
  assume "returns_early message (deviceTree c)"
  then have "returns_early message (deviceTree ?c0)" by simp
  from reduce_returns_early [OF this]
  have r: "reduce message ?c0 =
             (Return, if m_tag message = ''message'' then dispatchMessage message ?c0 else ?c0)" .
  show "fst (reduce message ?c0) = Return" using r by simp
  show "pendingTicks (snd (onMessage message c)) = pendingTicks c"
    using r by (simp add: onMessage_def dispatchMessage_def)
  show "checkingListeners (snd (onMessage message c)) = checkingListeners c"
    using r by (simp add: onMessage_def dispatchMessage_def)
qed

theorem onMessage_bump_and_dispatch_witness:
  "returns_early (note_msg ''exposure done'') (deviceTree ccd_conn)
   \<and> returns_early (set_msg ''CCD'' ''CCD_EXPOSURE'') (deviceTree ccd_conn)
   \<and> returns_early (del_msg ''Mount'' None) (deviceTree ccd_conn)
   \<and> globalRevisionId (snd (onMessage (note_msg ''exposure done'') ccd_conn)) = 2
   \<and> pendingTicks (snd (onMessage (note_msg ''exposure done'') ccd_conn)) = 0
   \<and> pendingTicks (snd (onMessage (set_msg ''CCD'' ''CCD_EXPOSURE'') ccd_conn)) = 0
   \<and> pendingTicks (snd (onMessage (del_msg ''Mount'' None) ccd_conn)) = 0
   \<and> checkingListeners (snd (onMessage (del_msg ''Mount'' None) ccd_conn)) = None"
proof -
  have a: "returns_early (note_msg ''exposure done'') (deviceTree ccd_conn)"
    by (simp add: returns_early_def note_msg_def)
  have b: "returns_early (set_msg ''CCD'' ''CCD_EXPOSURE'') (deviceTree ccd_conn)"
    using sample_set_tag sample_unknown_vector by (simp add: returns_early_def)
  have d: "returns_early (del_msg ''Mount'' None) (deviceTree ccd_conn)"
    by (simp add: returns_early_def del_msg_def has_def key_of_def ccd_conn_def ccd_tree_def)
  have g: "globalRevisionId ccd_conn = 1" "pendingTicks ccd_conn = 0"
          "checkingListeners ccd_conn = None"
    by (simp_all add: ccd_conn_def newConnection_def)
  show ?thesis
    using a b d g
      onMessage_bump_and_dispatch [of "note_msg ''exposure done''" ccd_conn]
      onMessage_bump_and_dispatch [of "set_msg ''CCD'' ''CCD_EXPOSURE''" ccd_conn]
      onMessage_bump_and_dispatch [of "del_msg ''Mount'' None" ccd_conn]
    by simp
qed

section \<open>Properties of the dispatch pass\<close>

lemma run_actions_invoked: "invoked (snd (run_actions acts c)) = invoked c"
  by (induction acts c rule: run_actions.induct) (simp_all add: addListener_def removeListener_def)

lemma invoke_invoked: "invoked (snd (invoke ext todo c)) = invoked c"
  by (cases todo)
     (simp_all add: invoke_def run_actions_invoked refreshStatus_def wait_listener_def
        dettach_def settle_def removeListener_def split: option.splits sum.splits)

lemma run_actions_checking_exact:
  assumes "checkingListeners c = Some cl" "distinct cl" "fst (run_actions acts c) = None"
  shows "checkingListeners (snd (run_actions acts c)) =
           Some (filter (\<lambda>l. RemoveListener l \<notin> set acts) cl)"
  using assms
proof (induction acts c arbitrary: cl rule: run_actions.induct)
  case (1 c)
  then show ?case by simp
next
  case (2 f rest c)
  have "checkingListeners (addListener f c) = Some cl" using 2(2) by (simp add: addListener_def)
  from 2(1) [OF this 2(3)] 2(4) show ?case by simp
next
  case (3 f rest c)
  have a: "checkingListeners (removeListener f c) = Some (remove1 f cl)"
    using 3(2) by (simp add: removeListener_def)
  have d: "distinct (remove1 f cl)" using 3(3) by simp
  have "filter (\<lambda>l. l \<noteq> f) cl = filter (\<lambda>y. f \<noteq> y) cl"
    by (rule filter_cong) auto
  then have r: "remove1 f cl = filter (\<lambda>l. l \<noteq> f) cl"
    using 3(3) by (simp add: distinct_remove1_removeAll removeAll_filter_not_eq)
  from 3(1) [OF a d] 3(4) show ?case
    by (auto simp: r intro: filter_cong)
next
  case (4 e rest c)
  then show ?case by simp
qed

lemma invoke_checking_exact:
  assumes "checkingListeners c = Some cl" "distinct cl" "todo \<notin> set cl"
      and "fst (invoke ext todo c) = None"
  shows "checkingListeners (snd (invoke ext todo c)) =
           Some (filter (\<lambda>l. \<not> removed_by ext todo c l) cl)"
proof (cases todo)
  case (WaitL i)
  have "checkingListeners (wait_listener i c) = Some cl
        \<or> checkingListeners (wait_listener i c) = Some (remove1 (WaitL i) cl)"
    using assms(1)
    by (simp add: wait_listener_def dettach_def settle_def removeListener_def
             split: option.splits sum.splits)
  moreover have "remove1 (WaitL i) cl = cl" using assms(3) WaitL by (simp add: remove1_idem)
  moreover have "filter (\<lambda>l. l \<noteq> WaitL i) cl = cl"
    using assms(3) WaitL by (auto simp: filter_id_conv)
  ultimately show ?thesis using WaitL by (simp add: invoke_def removed_by_def)
next
  case RefreshL
  with assms(1) show ?thesis by (simp add: invoke_def refreshStatus_def removed_by_def)
next
  case (ExtL n)
  with run_actions_checking_exact [OF assms(1,2), of "ext n c"] assms(4) show ?thesis
    by (simp add: invoke_def removed_by_def)
qed

lemma takeWhile_filter_keep:
  assumes "P l"
  shows "takeWhile (\<lambda>x. x \<noteq> l) (filter P xs) = filter P (takeWhile (\<lambda>x. x \<noteq> l) xs)"
  using assms by (induction xs) auto

lemma removed_before_Cons:
  "removed_before ext ((t, s) # tr) order l =
     ((t \<in> set (takeWhile (\<lambda>x. x \<noteq> l) order) \<and> removed_by ext t s l)
      \<or> removed_before ext tr order l)"
  by (simp add: removed_before_def)

lemma removed_before_Nil: "\<not> removed_before ext [] order l"
  by (simp add: removed_before_def)

lemma tick_loop_trace:
  assumes "checkingListeners c = Some cl" "distinct cl" "tick_loop ext c = (None, c')"
  shows "invoked c' = invoked c @ map fst (tick_trace ext c)
         \<and> map fst (tick_trace ext c) =
             filter (\<lambda>l. \<not> removed_before ext (tick_trace ext c) (rev cl) l) (rev cl)"
  using assms
proof (induction ext c arbitrary: cl rule: tick_loop.induct)
  case (1 ext c)
  show ?case
  proof (cases "cl = []")
    case True
    have "tick_trace ext c = []" using 1(2) True by (simp add: tick_trace.simps [of ext c])
    moreover have "c' = c" using 1(2,4) True by (simp add: tick_loop.simps [of ext c])
    ultimately show ?thesis using True by simp
  next
    case False
    let ?todo = "last cl"
    let ?bl = "butlast cl"
    let ?c1 = "c\<lparr> checkingListeners := Some ?bl, invoked := invoked c @ [?todo] \<rparr>"
    obtain x c2 where i: "invoke ext ?todo ?c1 = (x, c2)" by (cases "invoke ext ?todo ?c1")
    from 1(2,4) False i have x: "x = None" and t: "tick_loop ext c2 = (None, c')"
      by (auto simp: tick_loop.simps [of ext c] split: option.splits)
    have len: "length cl \<noteq> 0" using False by simp
    have cl: "cl = ?bl @ [?todo]" using False by simp
    have db: "distinct ?bl" using 1(3) by (simp add: distinct_butlast)
    have lastnot: "?todo \<notin> set ?bl"
      using 1(3) cl by (metis distinct_append distinct.simps(2) disjoint_iff list.set_intros(1)
                          not_distinct_conv_prefix)
    let ?P = "\<lambda>l. \<not> removed_by ext ?todo ?c1 l"
    let ?cl2 = "filter ?P ?bl"
    have c1: "checkingListeners ?c1 = Some ?bl" by simp
    have c2: "checkingListeners c2 = Some ?cl2"
      using invoke_checking_exact [OF c1 db lastnot, of ext] i x by simp
    have d2: "distinct ?cl2" using db by simp
    have inv2: "invoked c2 = invoked c @ [?todo]"
      using invoke_invoked [of ext ?todo ?c1] i by simp
    have i': "(None, c2) = invoke ext ?todo ?c1" using i x by simp
    let ?tr2 = "tick_trace ext c2"
    from 1(1) [OF 1(2) len i' refl c2 d2 t]
    have ih1: "invoked c' = invoked c2 @ map fst ?tr2"
     and ih2: "map fst ?tr2 = filter (\<lambda>l. \<not> removed_before ext ?tr2 (rev ?cl2) l) (rev ?cl2)"
      by simp_all
    have tr: "tick_trace ext c = (?todo, ?c1) # ?tr2"
      using 1(2) False i x by (simp add: tick_trace.simps [of ext c])
    have sub: "fst ` set ?tr2 \<subseteq> set ?cl2"
    proof -
      have "set (map fst ?tr2) \<subseteq> set (rev ?cl2)" by (subst ih2) (rule filter_is_subset)
      then show ?thesis by simp
    qed
    have revcl: "rev cl = ?todo # rev ?bl" by (subst cl) simp
    have rb_todo: "\<not> removed_before ext (tick_trace ext c) (rev cl) ?todo"
      by (simp add: removed_before_def revcl list_ex_iff)
    have rb_rest: "removed_before ext (tick_trace ext c) (rev cl) l
                   \<longleftrightarrow> \<not> ?P l \<or> removed_before ext ?tr2 (rev ?cl2) l"
      if l: "l \<in> set ?bl" for l
    proof -
      have ne: "l \<noteq> ?todo" using l lastnot by auto
      have tw: "takeWhile (\<lambda>x. x \<noteq> l) (rev cl) = ?todo # takeWhile (\<lambda>x. x \<noteq> l) (rev ?bl)"
        using ne by (simp add: revcl)
      show ?thesis
      proof (cases "?P l")
        case False
        then show ?thesis by (simp add: tr removed_before_Cons tw)
      next
        case True
        have tw2: "takeWhile (\<lambda>x. x \<noteq> l) (rev ?cl2) = filter ?P (takeWhile (\<lambda>x. x \<noteq> l) (rev ?bl))"
          using takeWhile_filter_keep [of ?P l "rev ?bl"] True by (simp add: rev_filter)
        have "removed_before ext ?tr2 (rev cl) l \<longleftrightarrow> removed_before ext ?tr2 (rev ?cl2) l"
        proof -
          have "\<And>t s. (t, s) \<in> set ?tr2 \<Longrightarrow>
                  (t \<in> set (takeWhile (\<lambda>x. x \<noteq> l) (rev cl))
                   \<longleftrightarrow> t \<in> set (takeWhile (\<lambda>x. x \<noteq> l) (rev ?cl2)))"
          proof -
            fix t s assume "(t, s) \<in> set ?tr2"
            then have "t \<in> set ?cl2" using sub by force
            then have "?P t" "t \<noteq> ?todo" using lastnot by auto
            then show "t \<in> set (takeWhile (\<lambda>x. x \<noteq> l) (rev cl))
                   \<longleftrightarrow> t \<in> set (takeWhile (\<lambda>x. x \<noteq> l) (rev ?cl2))"
              by (simp add: tw tw2)
          qed
          then show ?thesis by (auto simp: removed_before_def list_ex_iff)
        qed
        with True show ?thesis by (simp add: tr removed_before_Cons tw)
      qed
    qed
    have "filter (\<lambda>l. \<not> removed_before ext (tick_trace ext c) (rev cl) l) (rev ?bl)
          = filter (\<lambda>l. ?P l \<and> \<not> removed_before ext ?tr2 (rev ?cl2) l) (rev ?bl)"
      using rb_rest by (intro filter_cong) auto
    also have "\<dots> = filter (\<lambda>l. \<not> removed_before ext ?tr2 (rev ?cl2) l) (rev ?cl2)"
      by (simp add: rev_filter conj_commute)
    finally have "filter (\<lambda>l. \<not> removed_before ext (tick_trace ext c) (rev cl) l) (rev cl)
                  = ?todo # map fst ?tr2"
      using rb_todo ih2 by (simp add: revcl)
    moreover have "invoked c' = invoked c @ map fst (tick_trace ext c)"
      using ih1 inv2 tr by simp
    ultimately show ?thesis using tr by simp
  qed
qed


lemma count_filter_distinct:
  assumes "distinct xs" "l \<in> set xs"
  shows "count_list (filter P xs) l = (if P l then 1 else 0)"
  using assms by (induction xs) auto

lemma checkListeners_snapshot:
  "checkingListeners (checkListeners c) = Some (listeners c)
   \<and> listeners (checkListeners c) = listeners c \<and> invoked (checkListeners c) = invoked c"
  by (simp add: checkListeners_def Let_def)

lemma removal_pass:
  "dispatch_pass removal_ext removal_conn =
     (None, removal_conn\<lparr> listeners := [ExtL 1], checkingListeners := Some [],
                          invoked := [ExtL 2, ExtL 1] \<rparr>)"
  by (simp add: dispatch_pass_def removal_conn_def removal_ext_def checkListeners_def Let_def
       tick_def tick_loop.simps invoke_def removeListener_def newConnection_def)

lemma removal_tick:
  "tick removal_ext (checkListeners removal_conn) =
     (None, removal_conn\<lparr> listeners := [ExtL 1], checkingListeners := Some [],
                          invoked := [ExtL 2, ExtL 1] \<rparr>)"
  using removal_pass by (simp add: dispatch_pass_def removal_conn_def newConnection_def)

lemma dispatch_pass_atomic:
  assumes "distinct (listeners c)" and "dispatch_pass ext c = (None, c')"
      and "listeners c \<noteq> []"
  shows "invoked c' = invoked c @ map fst (pass_trace ext (checkListeners c))
         \<and> map fst (pass_trace ext (checkListeners c)) =
             filter (\<lambda>l. \<not> removed_before ext (pass_trace ext (checkListeners c))
                                (rev (listeners c)) l) (rev (listeners c))"
proof -
  let ?c = "(checkListeners c)\<lparr> pendingTicks := pendingTicks (checkListeners c) - 1 \<rparr>"
  have s: "checkingListeners ?c = Some (listeners c)" by (simp add: checkListeners_snapshot)
  have t: "tick_loop ext ?c = (None, c')"
    using assms(2,3) by (simp add: dispatch_pass_def tick_def)
  from tick_loop_trace [OF s assms(1) t] show ?thesis
    by (simp add: pass_trace_def checkListeners_snapshot)
qed

text \<open>
  C6 as stated fails: a listener that is removed by another listener before its turn is
  not called in that pass. Here three listeners are registered; listener 2 is called
  first and removes itself, listener 1 is called next and removes listener 0, which is
  never called.
\<close>

theorem dispatch_skips_removed_listener:
  "listeners removal_conn = [ExtL 0, ExtL 1, ExtL 2]
   \<and> fst (dispatch_pass removal_ext removal_conn) = None
   \<and> invoked (snd (dispatch_pass removal_ext removal_conn)) = [ExtL 2, ExtL 1]"
  by (simp add: removal_pass) (simp add: removal_conn_def newConnection_def)

text \<open>
  C6, amended. \<^verbatim>\<open>checkListeners\<close> takes as snapshot the listeners registered when it is called,
  and a dispatch pass is the callback it schedules. When the callback runs on a snapshot of
  distinct listeners and no listener throws, the listeners it calls are, in the reverse
  order of the snapshot, exactly the listeners of the snapshot on which no listener
  called earlier in the pass has called \<^verbatim>\<open>removeListener\<close>: each of these is called exactly
  once, and a listener removed before its turn is not called in that pass. A listener
  removing itself makes no listener skipped or called twice. (Until the callback runs,
  \<^verbatim>\<open>removeListener\<close> takes a listener out of the snapshot and a further \<^verbatim>\<open>checkListeners\<close>
  replaces it; the statement is about the snapshot as the callback finds it.)
\<close>

theorem dispatch_invokes_exactly_unremoved:
  assumes "checkingListeners c = Some cl" and "distinct cl" and "tick ext c = (None, c')"
  shows "checkingListeners (checkListeners c0) = Some (listeners c0)
         \<and> invoked c' = invoked c @ map fst (pass_trace ext c)
         \<and> map fst (pass_trace ext c) =
             filter (\<lambda>l. \<not> removed_before ext (pass_trace ext c) (rev cl) l) (rev cl)
         \<and> (\<forall>l\<in>set cl. count_list (map fst (pass_trace ext c)) l =
                (if removed_before ext (pass_trace ext c) (rev cl) l then 0 else 1))"
proof -
  let ?c = "c\<lparr> pendingTicks := pendingTicks c - 1 \<rparr>"
  have s: "checkingListeners ?c = Some cl" using assms(1) by simp
  have t: "tick_loop ext ?c = (None, c')" using assms(3) by (simp add: tick_def)
  from tick_loop_trace [OF s assms(2) t]
  have a: "invoked c' = invoked c @ map fst (pass_trace ext c)"
   and b: "map fst (pass_trace ext c) =
             filter (\<lambda>l. \<not> removed_before ext (pass_trace ext c) (rev cl) l) (rev cl)"
    by (simp_all add: pass_trace_def)
  have "\<forall>l\<in>set cl. count_list (map fst (pass_trace ext c)) l =
                (if removed_before ext (pass_trace ext c) (rev cl) l then 0 else 1)"
  proof
    fix l assume "l \<in> set cl"
    then have "count_list (filter (\<lambda>l. \<not> removed_before ext (pass_trace ext c) (rev cl) l)
                             (rev cl)) l =
                 (if \<not> removed_before ext (pass_trace ext c) (rev cl) l then 1 else 0)"
      using assms(2) by (intro count_filter_distinct) simp_all
    then show "count_list (map fst (pass_trace ext c)) l =
                (if removed_before ext (pass_trace ext c) (rev cl) l then 0 else 1)"
      by (subst b) simp
  qed
  with a b checkListeners_snapshot [of c0] show ?thesis by blast
qed

theorem dispatch_invokes_exactly_unremoved_witness:
  "checkingListeners (checkListeners removal_conn) = Some [ExtL 0, ExtL 1, ExtL 2]
   \<and> distinct [ExtL 0, ExtL 1, ExtL 2]
   \<and> tick removal_ext (checkListeners removal_conn) =
       (None, removal_conn\<lparr> listeners := [ExtL 1], checkingListeners := Some [],
                            invoked := [ExtL 2, ExtL 1] \<rparr>)
   \<and> map fst (pass_trace removal_ext (checkListeners removal_conn)) = [ExtL 2, ExtL 1]
   \<and> removed_before removal_ext (pass_trace removal_ext (checkListeners removal_conn))
        (rev [ExtL 0, ExtL 1, ExtL 2]) (ExtL 0)
   \<and> \<not> removed_before removal_ext (pass_trace removal_ext (checkListeners removal_conn))
        (rev [ExtL 0, ExtL 1, ExtL 2]) (ExtL 2)"
proof -
  let ?c = "checkListeners removal_conn"
  let ?tr = "pass_trace removal_ext ?c"
  have s: "checkingListeners ?c = Some [ExtL 0, ExtL 1, ExtL 2]"
    by (simp add: checkListeners_def Let_def removal_conn_def newConnection_def)
  have d: "distinct [ExtL 0, ExtL 1, ExtL 2]" by simp
  have i: "invoked ?c = []"
    by (simp add: checkListeners_def Let_def removal_conn_def newConnection_def)
  note th = dispatch_invokes_exactly_unremoved [OF s d removal_tick]
  from th i have m: "map fst ?tr = [ExtL 2, ExtL 1]" by simp
  from th have all: "\<forall>l\<in>set [ExtL 0, ExtL 1, ExtL 2].
      count_list (map fst ?tr) l =
        (if removed_before removal_ext ?tr (rev [ExtL 0, ExtL 1, ExtL 2]) l then 0 else 1)"
    by blast
  have z: "count_list (map fst ?tr) (ExtL 0) = 0" "count_list (map fst ?tr) (ExtL 2) = 1"
    by (simp_all add: m)
  from all have e0: "count_list (map fst ?tr) (ExtL 0) =
        (if removed_before removal_ext ?tr (rev [ExtL 0, ExtL 1, ExtL 2]) (ExtL 0) then 0 else 1)"
    by (rule bspec) simp
  have r0: "removed_before removal_ext ?tr (rev [ExtL 0, ExtL 1, ExtL 2]) (ExtL 0)"
  proof (rule ccontr)
    assume "\<not> removed_before removal_ext ?tr (rev [ExtL 0, ExtL 1, ExtL 2]) (ExtL 0)"
    with e0 have "count_list (map fst ?tr) (ExtL 0) = 1" by (simp only: if_False)
    with z(1) show False by simp
  qed
  from all have e2: "count_list (map fst ?tr) (ExtL 2) =
        (if removed_before removal_ext ?tr (rev [ExtL 0, ExtL 1, ExtL 2]) (ExtL 2) then 0 else 1)"
    by (rule bspec) simp
  have r2: "\<not> removed_before removal_ext ?tr (rev [ExtL 0, ExtL 1, ExtL 2]) (ExtL 2)"
  proof
    assume "removed_before removal_ext ?tr (rev [ExtL 0, ExtL 1, ExtL 2]) (ExtL 2)"
    with e2 have "count_list (map fst ?tr) (ExtL 2) = 0" by (simp only: if_True)
    with z(2) show False by simp
  qed
  from s d removal_tick m r0 r2 show ?thesis by blast
qed

section \<open>Properties of the revision counter\<close>

lemma run_actions_revision: "globalRevisionId (snd (run_actions acts c)) = globalRevisionId c"
  by (induction acts c rule: run_actions.induct) (simp_all add: addListener_def removeListener_def)

lemma wait_listener_revision: "globalRevisionId (wait_listener i c) = globalRevisionId c"
  by (simp add: wait_listener_def dettach_def settle_def removeListener_def
        split: option.splits sum.splits)

lemma invoke_revision: "globalRevisionId (snd (invoke ext todo c)) = globalRevisionId c"
  by (cases todo)
     (simp_all add: invoke_def run_actions_revision wait_listener_revision refreshStatus_def)

lemma tick_loop_revision: "globalRevisionId (snd (tick_loop ext c)) = globalRevisionId c"
proof (induction ext c rule: tick_loop.induct)
  case (1 ext c)
  show ?case
  proof (cases "checkingListeners c")
    case None
    then show ?thesis by (simp add: tick_loop.simps [of ext c])
  next
    case (Some cl)
    show ?thesis
    proof (cases "length cl = 0")
      case True
      with Some show ?thesis by (simp add: tick_loop.simps [of ext c])
    next
      case False
      let ?c1 = "c\<lparr> checkingListeners := Some (butlast cl), invoked := invoked c @ [last cl] \<rparr>"
      obtain x c2 where i: "invoke ext (last cl) ?c1 = (x, c2)"
        by (cases "invoke ext (last cl) ?c1")
      have r2: "globalRevisionId c2 = globalRevisionId c"
        using invoke_revision [of ext "last cl" ?c1] i by simp
      show ?thesis
      proof (cases x)
        case None
        from 1 [OF Some False i [symmetric] None] r2 Some False i None show ?thesis
          by (simp add: tick_loop.simps [of ext c])
      next
        case (Some e)
        with r2 \<open>checkingListeners c = Some cl\<close> False i show ?thesis
          by (simp add: tick_loop.simps [of ext c])
      qed
    qed
  qed
qed

lemma wait_revision: "globalRevisionId (snd (wait p a c)) = globalRevisionId c"
  by (simp add: wait_def Let_def settle_def addListener_def split: sum.splits)

lemma setValues_revision: "globalRevisionId (snd (setValues d v a c)) = globalRevisionId c"
  by (simp add: setValues_def Let_def queueMessage_def flushQueue_def split: sum.splits)

lemma step_revision:
  "globalRevisionId (step ext e c) = globalRevisionId c + (if bumps e then 1 else 0)"
proof (cases e)
  case Lifecycle
  then show ?thesis
    by (simp add: lifecycle_start_def Let_def wait_revision addListener_def newConnection_def)
next
  case Connect
  then show ?thesis by (simp add: socket_connect_def Let_def flushQueue_def)
next
  case Close
  then show ?thesis by (simp add: socket_close_def checkListeners_revision)
next
  case (Message m)
  then show ?thesis by (simp add: onMessage_revision)
next
  case Tick
  then show ?thesis by (simp add: tick_def tick_loop_revision)
next
  case (SetValues d v a)
  then show ?thesis by (simp add: setValues_revision)
next
  case (Wait p a)
  then show ?thesis by (simp add: wait_revision)
next
  case (AddL f)
  then show ?thesis by (simp add: addListener_def)
next
  case (RemoveL f)
  then show ?thesis by (simp add: removeListener_def)
next
  case Refresh
  then show ?thesis by (simp add: refreshStatus_def)
qed

lemma run_revision:
  "globalRevisionId (run ext es c) = globalRevisionId c + length (filter bumps es)"
  unfolding run_def
  by (induction es arbitrary: c) (simp_all add: step_revision)

text \<open>
  C5. The global revision counter (a JavaScript number, exact far beyond any reachable
  count and modelled as a natural number) is incremented by one on the socket's connect
  event, on its close event and by every call of \<^verbatim>\<open>onMessage\<close>, hence on every applied
  definition, update and deletion; no other operation changes it. So it never decreases,
  it increases strictly at each of these events, and after any sequence of events it
  has grown by the number of such events in the sequence.
\<close>

theorem revision_strictly_increasing:
  "globalRevisionId (socket_connect c) = globalRevisionId c + 1
   \<and> globalRevisionId (socket_close c) = globalRevisionId c + 1
   \<and> globalRevisionId (snd (onMessage m c)) = globalRevisionId c + 1
   \<and> globalRevisionId c \<le> globalRevisionId (step ext e c)
   \<and> (bumps e \<longrightarrow> globalRevisionId c < globalRevisionId (step ext e c))
   \<and> globalRevisionId (run ext es c) = globalRevisionId c + length (filter bumps es)"
  using step_revision [of ext Connect c] step_revision [of ext Close c]
        step_revision [of ext e c] run_revision [of ext es c]
  by (simp add: onMessage_revision)

theorem revision_strictly_increasing_witness:
  "bumps (Message def_msg)
   \<and> globalRevisionId (newConnection 0)
       < globalRevisionId (step removal_ext (Message def_msg) (newConnection 0))
   \<and> globalRevisionId
        (run removal_ext [Lifecycle, Connect, Message def_msg, SetValues ''CCD'' ''CONNECTION''
           [(''CONNECT'', ''On'')], Message upd_msg, Message (del_msg ''CCD'' None), Close, Tick]
           (newConnection 0)) = 5"
  using revision_strictly_increasing [of "newConnection 0" def_msg removal_ext "Message def_msg"
     "[Lifecycle, Connect, Message def_msg, SetValues ''CCD'' ''CONNECTION''
           [(''CONNECT'', ''On'')], Message upd_msg, Message (del_msg ''CCD'' None), Close, Tick]"]
  by (simp add: newConnection_def)

section \<open>Properties of the children of a vector\<close>

lemma getVectorInTree_alt:
  "getVectorInTree t d v = (case map_of t d of None \<Rightarrow> None | Some dev \<Rightarrow> map_of dev v)"
  by (simp add: getVectorInTree_def has_def split: option.splits)

lemma index_childs_keys:
  "fst ` set (index_childs chs acc) = fst ` set acc \<union> (\<lambda>child. key_of (el_name child)) ` set chs"
  by (induction chs arbitrary: acc) (auto simp: AList.dom_update)

lemma apply_updates_keys: "fst ` set (apply_updates us cs) = fst ` set cs"
  by (induction us arbitrary: cs) (simp_all add: AList.dom_map_entry)

lemma def_vector_keys:
  "map_of (m_elems m) (strip_Vector (m_tag m)) = Some chs \<Longrightarrow>
   fst ` set (childs (def_vector m ty chs r)) = set (def_child_names m)"
  by (simp add: def_vector_def def_child_names_def index_childs_keys)

lemma getVectorInTree_put:
  "getVectorInTree (put_vector d v x t) d' v' =
     (if d' = d \<and> v' = v then Some x else getVectorInTree t d' v')"
  by (auto simp: getVectorInTree_alt put_vector_def getDeviceInTree_def has_def
        AList.map_of_map_entry AList.update_conv' split: option.splits)

lemma def_branch_tree:
  assumes "def_branch m c = (f, c')"
  shows "getVectorInTree (deviceTree c') d v =
           (if def_applies m \<and> key_of (m_device m) = d \<and> key_of (m_name m) = v
            then Some (def_vector m (strip_prefix ''def'' (strip_Vector (m_tag m)))
                         (the (map_of (m_elems m) (strip_Vector (m_tag m)))) (globalRevisionId c))
            else getVectorInTree (deviceTree c) d v)"
  using assms
  by (auto simp: def_branch_def Let_def def_applies_def has_def getVectorInTree_put
        split: if_splits option.splits)

lemma del_branch_tree:
  assumes "del_branch m c = (f, c')" "getVectorInTree (deviceTree c') d v = Some vd"
  shows "getVectorInTree (deviceTree c) d v = Some vd"
  using assms
  by (auto simp: del_branch_def getVectorInTree_alt AList.map_of_map_entry AList.delete_conv'
        split: if_splits option.splits)

lemma getVectorInTree_map_entry:
  "getVectorInTree (AList.map_entry d (AList.map_entry v g) t) d' v' =
     (if d' = d \<and> v' = v then map_option g (getVectorInTree t d v)
      else getVectorInTree t d' v')"
  by (auto simp: getVectorInTree_alt AList.map_of_map_entry split: option.splits)

lemma childs_set_header: "childs (set_header m r p) = childs p"
  by (simp add: set_header_def)

lemma set_branch_cases:
  assumes "set_branch m c = (f, c')"
  shows "deviceTree c' = deviceTree c
         \<or> deviceTree c' = AList.map_entry (key_of (m_device m))
              (AList.map_entry (key_of (m_name m)) (set_header m (globalRevisionId c)))
              (deviceTree c)
         \<or> (\<exists>updates. deviceTree c' =
              AList.map_entry (key_of (m_device m))
                (AList.map_entry (key_of (m_name m))
                   (\<lambda>prop. prop\<lparr> childs := apply_updates updates (childs prop) \<rparr>))
                (AList.map_entry (key_of (m_device m))
                   (AList.map_entry (key_of (m_name m)) (set_header m (globalRevisionId c)))
                   (deviceTree c)))"
  using assms
  by (auto simp: set_branch_def Let_def split: if_splits option.splits)

lemma set_branch_tree:
  assumes "set_branch m c = (f, c')" "getVectorInTree (deviceTree c') d v = Some vd"
  shows "\<exists>vd0. getVectorInTree (deviceTree c) d v = Some vd0
           \<and> fst ` set (childs vd) = fst ` set (childs vd0)"
proof -
  let ?h = "set_header m (globalRevisionId c)"
  have keep: "\<And>t. getVectorInTree t d v = Some vd \<Longrightarrow> t = deviceTree c \<Longrightarrow> ?thesis"
    by simp
  have hdr: "\<And>x. getVectorInTree (AList.map_entry (key_of (m_device m))
                  (AList.map_entry (key_of (m_name m)) ?h) (deviceTree c)) d v = Some x \<Longrightarrow>
             \<exists>vd0. getVectorInTree (deviceTree c) d v = Some vd0
                    \<and> fst ` set (childs x) = fst ` set (childs vd0)"
    by (auto simp: getVectorInTree_map_entry childs_set_header split: if_splits)
  from set_branch_cases [OF assms(1)] show ?thesis
  proof (elim disjE exE)
    assume "deviceTree c' = deviceTree c"
    with assms(2) show ?thesis by simp
  next
    assume "deviceTree c' = AList.map_entry (key_of (m_device m))
              (AList.map_entry (key_of (m_name m)) ?h) (deviceTree c)"
    with assms(2) hdr [of vd] show ?thesis by simp
  next
    fix updates
    let ?t1 = "AList.map_entry (key_of (m_device m))
                 (AList.map_entry (key_of (m_name m)) ?h) (deviceTree c)"
    assume "deviceTree c' =
              AList.map_entry (key_of (m_device m))
                (AList.map_entry (key_of (m_name m))
                   (\<lambda>prop. prop\<lparr> childs := apply_updates updates (childs prop) \<rparr>)) ?t1"
    with assms(2) obtain x where
      x: "getVectorInTree ?t1 d v = Some x" "fst ` set (childs vd) = fst ` set (childs x)"
      by (auto simp: getVectorInTree_map_entry apply_updates_keys split: if_splits)
    from hdr [OF x(1)] x(2) show ?thesis by auto
  qed
qed

lemma reduce_tree:
  assumes "reduce m c = (f, c')" "getVectorInTree (deviceTree c') d v = Some vd"
  shows "(def_applies m \<and> key_of (m_device m) = d \<and> key_of (m_name m) = v
            \<and> fst ` set (childs vd) = set (def_child_names m))
         \<or> (\<not> (def_applies m \<and> key_of (m_device m) = d \<and> key_of (m_name m) = v)
            \<and> (\<exists>vd0. getVectorInTree (deviceTree c) d v = Some vd0
                   \<and> fst ` set (childs vd) = fst ` set (childs vd0)))"
proof (cases "m_tag m = ''message''")
  case True
  then have "\<not> def_applies m" by (simp add: def_applies_def matches_vector_def)
  with True assms show ?thesis by (auto simp: reduce_def dispatchMessage_def)
next
  case False
  obtain f1 c1 where d1: "def_branch m c = (f1, c1)" by (cases "def_branch m c")
  show ?thesis
  proof (cases "def_applies m")
    case True
    then have tag: "matches_vector ''def'' (m_tag m)" by (simp add: def_applies_def)
    then have nd: "m_tag m \<noteq> ''delProperty''" and ns: "\<not> matches_vector ''set'' (m_tag m)"
      by (auto simp: matches_vector_def)
    from True obtain chs where chs: "map_of (m_elems m) (strip_Vector (m_tag m)) = Some chs"
      by (auto simp: def_applies_def has_def)
    have "f1 = Next" using d1 tag chs by (auto simp: def_branch_def Let_def)
    with assms(1) False d1 nd ns have c': "c' = c1"
      by (simp add: reduce_def del_branch_not_del set_branch_def)
    show ?thesis
    proof (cases "key_of (m_device m) = d \<and> key_of (m_name m) = v")
      case here: True
      with def_branch_tree [OF d1, of d v] assms(2) True chs c'
      have "vd = def_vector m (strip_prefix ''def'' (strip_Vector (m_tag m))) chs
                   (globalRevisionId c)" by simp
      with def_vector_keys [OF chs] have "fst ` set (childs vd) = set (def_child_names m)"
        by simp
      with True here show ?thesis by simp
    next
      case False
      with def_branch_tree [OF d1, of d v] assms(2) c'
      have "getVectorInTree (deviceTree c) d v = Some vd" by simp
      with False show ?thesis by auto
    qed
  next
    case nodef: False
    have t1: "getVectorInTree (deviceTree c1) d v = getVectorInTree (deviceTree c) d v"
      using def_branch_tree [OF d1, of d v] nodef by simp
    obtain f2 c2 where d2: "del_branch m c1 = (f2, c2)" by (cases "del_branch m c1")
    obtain f3 c3 where d3: "set_branch m c2 = (f3, c3)" by (cases "set_branch m c2")
    from assms(1) False d1 d2 d3 have "c' = c1 \<or> c' = c2 \<or> c' = c3"
      by (auto simp: reduce_def split: flow.splits)
    then have "\<exists>vd0. getVectorInTree (deviceTree c) d v = Some vd0
                   \<and> fst ` set (childs vd) = fst ` set (childs vd0)"
    proof (elim disjE)
      assume "c' = c1" with assms(2) t1 show ?thesis by simp
    next
      assume "c' = c2"
      with del_branch_tree [OF d2, of d v vd] assms(2) t1 show ?thesis by simp
    next
      assume "c' = c3"
      with set_branch_tree [OF d3, of d v vd] assms(2) obtain vd2 where
        "getVectorInTree (deviceTree c2) d v = Some vd2"
        "fst ` set (childs vd) = fst ` set (childs vd2)" by blast
      with del_branch_tree [OF d2, of d v vd2] t1 show ?thesis by simp
    qed
    with nodef show ?thesis by simp
  qed
qed

lemma checkListeners_tree: "deviceTree (checkListeners c) = deviceTree c"
  by (simp add: checkListeners_def Let_def)

lemma onMessage_tree:
  assumes "getVectorInTree (deviceTree (snd (onMessage m c))) d v = Some vd"
  shows "(def_applies m \<and> key_of (m_device m) = d \<and> key_of (m_name m) = v
            \<and> fst ` set (childs vd) = set (def_child_names m))
         \<or> (\<not> (def_applies m \<and> key_of (m_device m) = d \<and> key_of (m_name m) = v)
            \<and> (\<exists>vd0. getVectorInTree (deviceTree c) d v = Some vd0
                   \<and> fst ` set (childs vd) = fst ` set (childs vd0)))"
proof -
  let ?c0 = "c\<lparr> globalRevisionId := globalRevisionId c + 1 \<rparr>"
  obtain f c' where r: "reduce m ?c0 = (f, c')" by (cases "reduce m ?c0")
  have "deviceTree (snd (onMessage m c)) = deviceTree c'"
    using r by (cases f) (simp_all add: onMessage_def checkListeners_tree)
  with assms have "getVectorInTree (deviceTree c') d v = Some vd" by simp
  from reduce_tree [OF r this] show ?thesis by simp
qed

lemma latest_def_snoc:
  "latest_def (ms @ [m]) d v =
     (if def_applies m \<and> key_of (m_device m) = d \<and> key_of (m_name m) = v then Some m
      else latest_def ms d v)"
  by (simp add: latest_def_def)

lemma apply_messages_snoc:
  "apply_messages (ms @ [m]) c = snd (onMessage m (apply_messages ms c))"
  by (simp add: apply_messages_def)

lemma children_of_latest_def:
  assumes "getVectorInTree (deviceTree (apply_messages ms (newConnection r))) d v = Some vd"
  shows "\<exists>m. latest_def ms d v = Some m \<and> fst ` set (childs vd) = set (def_child_names m)"
  using assms
proof (induction ms arbitrary: vd rule: rev_induct)
  case Nil
  then show ?case
    by (simp add: apply_messages_def newConnection_def getVectorInTree_def has_def)
next
  case (snoc m ms)
  from snoc.prems have
    "getVectorInTree (deviceTree (snd (onMessage m (apply_messages ms (newConnection r))))) d v
       = Some vd"
    by (simp add: apply_messages_snoc)
  from onMessage_tree [OF this] show ?case
  proof (elim disjE conjE exE)
    assume "def_applies m" "key_of (m_device m) = d" "key_of (m_name m) = v"
           "fst ` set (childs vd) = set (def_child_names m)"
    then show ?thesis by (simp add: latest_def_snoc)
  next
    fix vd0
    assume n: "\<not> (def_applies m \<and> key_of (m_device m) = d \<and> key_of (m_name m) = v)"
       and g: "getVectorInTree (deviceTree (apply_messages ms (newConnection r))) d v = Some vd0"
       and k: "fst ` set (childs vd) = fst ` set (childs vd0)"
    from snoc.IH [OF g] obtain m0 where
      "latest_def ms d v = Some m0" "fst ` set (childs vd0) = set (def_child_names m0)" by blast
    moreover from n have "latest_def (ms @ [m]) d v = latest_def ms d v"
      by (auto simp: latest_def_snoc)
    ultimately show ?thesis using k by simp
  qed
qed

lemmas reducer_defs = apply_messages_def onMessage_def reduce_def def_branch_def del_branch_def
  set_branch_def matches_vector_def strip_Vector_def strip_prefix_def line_terminator_def
  put_vector_def getDeviceInTree_def has_def key_of_def def_vector_def set_header_def
  checkListeners_def text_val_def Let_def

lemma sample_run:
  "deviceTree (apply_messages sample_msgs (newConnection 0)) =
     [(''CCD'', [(''CONNECTION'', connection_vector)])]"
  by (simp add: sample_msgs_def def_msg_def upd_msg_def del_msg_def newConnection_def
        connection_vector_def switch_elem_def reducer_defs)

text \<open>
  C4. After any sequence of messages applied by the reducer to a new connection, every
  vector in the tree has a latest applied definition in the sequence, and the keys of
  its \<^verbatim>\<open>childs\<close> are among the child names of that definition: an update naming an
  unknown child adds no key.
\<close>

theorem children_within_latest_definition:
  assumes "getVectorInTree (deviceTree (apply_messages ms (newConnection r))) d v = Some vd"
  shows "\<exists>m. latest_def ms d v = Some m \<and> fst ` set (childs vd) \<subseteq> set (def_child_names m)"
  using children_of_latest_def [OF assms] by auto

theorem children_within_latest_definition_witness:
  "getVectorInTree (deviceTree (apply_messages sample_msgs (newConnection 0)))
     ''CCD'' ''CONNECTION'' = Some connection_vector
   \<and> (\<exists>m. latest_def sample_msgs ''CCD'' ''CONNECTION'' = Some m
          \<and> fst ` set (childs connection_vector) \<subseteq> set (def_child_names m))"
proof -
  have h: "getVectorInTree (deviceTree (apply_messages sample_msgs (newConnection 0)))
             ''CCD'' ''CONNECTION'' = Some connection_vector"
    by (simp add: sample_run getVectorInTree_def has_def)
  show ?thesis
    using h children_within_latest_definition [OF h] by simp
qed

section \<open>Socket close and pending waits\<close>

lemmas listener_defs = tick_def tick_loop.simps invoke_def wait_listener_def dettach_def
  settle_def isActive_def removeListener_def addListener_def refreshStatus_def wait_def
  lifecycle_start_def socket_close_def socket_connect_def flushQueue_def isDead_def

lemma wait_listener_still_false:
  assumes "map_of (waiters c) i = Some w" "w_pred w (deviceTree c) (dead c) = Inr False"
  shows "wait_listener i c = c"
  using assms by (simp add: wait_listener_def)

text \<open>
  C2 on the code. The manager opens a connection and the server defines a vector; a caller
  then waits, with \<^verbatim>\<open>allowDisconnectionState\<close> false, for a vector that does not exist yet;
  the socket closes and the dispatch pass scheduled by the close handler runs. The
  listener of the wait is called before the manager's listener clears the tree; it
  evaluates the predicate, finds it false and returns. After the pass the connection is
  dead and the tree is empty, but the wait is still pending, its listener is still
  registered and no further pass is scheduled: it has not failed with
  "Indi server disconnected", which only the start of \<^verbatim>\<open>wait\<close> checks for.
\<close>

theorem close_leaves_wait_pending:
  "dead (run removal_ext close_events (newConnection 0))
   \<and> deviceTree (run removal_ext close_events (newConnection 0)) = []
   \<and> invoked (run removal_ext close_events (newConnection 0))
       = [WaitL 0, RefreshL, WaitL 1, WaitL 0, RefreshL]
   \<and> map_option w_state (map_of (waiters (run removal_ext close_events (newConnection 0))) 1)
       = Some Pending
   \<and> listeners (run removal_ext close_events (newConnection 0)) = [RefreshL, WaitL 1]
   \<and> pendingTicks (run removal_ext close_events (newConnection 0)) = 0"
  by (simp add: run_def close_events_def newConnection_def def_msg_def switch_elem_def
        vector_exists_def exists_vec_def getVectorInTree_def
        listener_defs reducer_defs)

section \<open>Properties of the notification uids\<close>

lemma append_less_same: "(xs :: string) @ ys < xs @ zs \<longleftrightarrow> ys < zs"
  by (induction xs) simp_all

lemma uid_at_serial:
  "nextMessageUid toISO t (Some (t, n)) =
     (toISO t @ '':'' @ replicate (length (to_hex (Suc n)) - 1) (CHR ''Z'') @ to_hex (Suc n),
      Some (t, Suc n))"
  by (simp add: nextMessageUid_def Let_def)

lemma uids_same_clock:
  "uids toISO (replicate k t) (Some (t, n)) =
     map (\<lambda>i. toISO t @ '':'' @ replicate (length (to_hex i) - 1) (CHR ''Z'') @ to_hex i)
         [Suc n ..< Suc n + k]"
proof (induction k arbitrary: n)
  case 0
  then show ?case by simp
next
  case (Suc k)
  have "[Suc n ..< Suc n + Suc k] = Suc n # [Suc (Suc n) ..< Suc (Suc n) + k]"
    by (simp add: upt_rec)
  with Suc [of "Suc n"] show ?case by (simp add: uid_at_serial)
qed

lemma uids_first:
  "uids toISO (replicate (Suc k) t) None =
     (toISO t @ '':0'') # uids toISO (replicate k t) (Some (t, 0))"
  by (simp add: nextMessageUid_def Let_def to_hex.simps hex_digit_def)

lemma hex_15: "to_hex 15 = ''f''" by (simp add: to_hex.simps hex_digit_def)
lemma hex_16: "to_hex 16 = ''10''" by (simp add: to_hex.simps hex_digit_def)

text \<open>
  C7 on the code. Seventeen calls of \<^verbatim>\<open>nextMessageUid\<close> at one clock reading: the
  sixteenth returns the stamp followed by \<^verbatim>\<open>:f\<close>, the seventeenth the stamp followed by
  \<^verbatim>\<open>:Z10\<close>, and the later uid is the smaller string, since \<^verbatim>\<open>Z\<close> sorts before the
  lower-case digits \<^verbatim>\<open>a\<close> to \<^verbatim>\<open>f\<close>.
\<close>

theorem seventeenth_uid_sorts_before_sixteenth:
  "uids toISO (replicate 17 t) None ! 15 = toISO t @ '':f''
   \<and> uids toISO (replicate 17 t) None ! 16 = toISO t @ '':Z10''
   \<and> uids toISO (replicate 17 t) None ! 16 < uids toISO (replicate 17 t) None ! 15"
proof -
  have r: "replicate 17 t = replicate (Suc 16) t" by simp
  have u: "uids toISO (replicate 17 t) None =
             (toISO t @ '':0'') # map (\<lambda>i. toISO t @ '':'' @ replicate (length (to_hex i) - 1) (CHR ''Z'') @ to_hex i) [1 ..< 17]"
    unfolding r uids_first uids_same_clock by simp
  have a: "uids toISO (replicate 17 t) None ! 15 = toISO t @ '':f''"
    unfolding u by (simp add: hex_15)
  have b: "uids toISO (replicate 17 t) None ! 16 = toISO t @ '':Z10''"
    unfolding u by (simp add: hex_16)
  show ?thesis unfolding a b by (simp add: append_less_same)
qed

section \<open>Properties of the command sequencer\<close>

lemmas sequencer_defs = setParam_def setParam_write_def pulseParam_def pulse_on_def
  pulse_cleanup_def getValidConnection_def getVec_def getPropertyValueIfExists_def
  getState_def getExistingVectorInTree_def getVectorInTree_def setValues_def set_busy_def
  queueMessage_def flushQueue_def provided_def diff_state_def pulse_state_def Let_def




















lemma pulse_on_calls:
  assumes "pulse_on devId vectorId propId w3 w4 c = (err, calls, c')" "calls \<noteq> []"
  shows "(aw_error w3 = None \<longrightarrow>
            calls = [(devId, vectorId, [(propId, ''On'')])]
            \<and> err = Error (''Property stopped '' @ devId @ ''.'' @ vectorId @ ''.'' @ propId))
         \<and> (aw_error w3 \<noteq> None
              \<and> exists_vec (deviceTree (aw_env w3 (snd (setValues devId vectorId
                                                        [(propId, ''On'')] c)))) devId vectorId
            \<longrightarrow> calls = [(devId, vectorId, [(propId, ''On'')]),
                         (devId, vectorId, [(propId, ''Off'')])])"
  using assms
  by (auto simp: pulse_on_def pulse_cleanup_def setValues_def getExistingVectorInTree_def
        exists_vec_def Let_def
        split: option.splits sum.splits prod.splits if_splits)

lemma pulseParam_cases:
  assumes "pulseParam devId vectorId propId w1 w2 w3 w4 c = (err, calls, c')" "calls \<noteq> []"
  shows "pulse_on devId vectorId propId w3 w4 (aw_env w2 (aw_env w1 c)) = (err, calls, c')"
  using assms
  by (auto simp: pulseParam_def Let_def split: option.splits sum.splits if_splits)

lemma cancelled_state:
  "exists_vec (deviceTree (pulse_state ''Mount'' ''TELESCOPE_MOTION_NS'' ''MOTION_NORTH''
      quiet quiet cancelled mount_conn)) ''Mount'' ''TELESCOPE_MOTION_NS''"
  by (simp add: mount_conn_def newConnection_def quiet_def cancelled_def exists_vec_def
        connection_vector_def motion_vector_def switch_elem_def text_val_def has_def
        sequencer_defs)


lemma cancelled_pulse_writes:
  "fst (snd (pulseParam ''Mount'' ''TELESCOPE_MOTION_NS'' ''MOTION_NORTH'' quiet quiet cancelled
          quiet mount_conn)) \<noteq> []"
  by (simp add: mount_conn_def newConnection_def quiet_def cancelled_def
        connection_vector_def motion_vector_def switch_elem_def text_val_def has_def
        sequencer_defs)

text \<open>
  C1 as stated fails at the exit by natural completion: when the wait that follows "On"
  resolves, \<^verbatim>\<open>selfStopped\<close> is set before "Property stopped" is thrown and the \<^verbatim>\<open>finally\<close>
  block writes nothing. Here the server reports the vector no longer busy; the only
  \<^verbatim>\<open>setValues\<close> call issued is the one for "On".
\<close>

theorem pulseParam_self_stopped_no_off:
  "fst (pulseParam ''Mount'' ''TELESCOPE_MOTION_NS'' ''MOTION_NORTH'' quiet quiet stopped quiet
          mount_conn) = Error ''Property stopped Mount.TELESCOPE_MOTION_NS.MOTION_NORTH''
   \<and> fst (snd (pulseParam ''Mount'' ''TELESCOPE_MOTION_NS'' ''MOTION_NORTH'' quiet quiet stopped
          quiet mount_conn)) = [(''Mount'', ''TELESCOPE_MOTION_NS'', [(''MOTION_NORTH'', ''On'')])]"
  by (simp add: mount_conn_def newConnection_def quiet_def stopped_def
        connection_vector_def motion_vector_def switch_elem_def text_val_def has_def
        motion_ok_msg_def sequencer_defs)

text \<open>
  C1, amended. Let \<^verbatim>\<open>pulseParam\<close> exit after having set the property "On". If the wait that
  follows threw (an error or the cancellation of the token) and the vector is still in
  the tree when \<^verbatim>\<open>pulseParam\<close> resumes, then a \<^verbatim>\<open>setValues\<close> call for "Off" on that vector
  is its last call, issued before it ends. If the wait resolved by itself, the only call
  is the one for "On" and the error is "Property stopped".
\<close>

theorem pulseParam_off_unless_self_stopped:
  assumes "pulseParam devId vectorId propId w1 w2 w3 w4 c = (err, calls, c')"
      and "calls \<noteq> []"
  shows "(aw_error w3 = None \<longrightarrow>
            calls = [(devId, vectorId, [(propId, ''On'')])]
            \<and> err = Error (''Property stopped '' @ devId @ ''.'' @ vectorId @ ''.'' @ propId))
         \<and> (aw_error w3 \<noteq> None
              \<and> exists_vec (deviceTree (pulse_state devId vectorId propId w1 w2 w3 c))
                   devId vectorId
            \<longrightarrow> calls = [(devId, vectorId, [(propId, ''On'')]),
                         (devId, vectorId, [(propId, ''Off'')])])"
  using pulse_on_calls [OF pulseParam_cases [OF assms] assms(2)]
  by (simp add: pulse_state_def)

theorem pulseParam_off_unless_self_stopped_witness:
  "fst (snd (pulseParam ''Mount'' ''TELESCOPE_MOTION_NS'' ''MOTION_NORTH'' quiet quiet cancelled
          quiet mount_conn)) \<noteq> []
   \<and> aw_error cancelled \<noteq> None
   \<and> exists_vec (deviceTree (pulse_state ''Mount'' ''TELESCOPE_MOTION_NS'' ''MOTION_NORTH''
        quiet quiet cancelled mount_conn)) ''Mount'' ''TELESCOPE_MOTION_NS''
   \<and> fst (snd (pulseParam ''Mount'' ''TELESCOPE_MOTION_NS'' ''MOTION_NORTH'' quiet quiet cancelled
          quiet mount_conn))
       = [(''Mount'', ''TELESCOPE_MOTION_NS'', [(''MOTION_NORTH'', ''On'')]),
          (''Mount'', ''TELESCOPE_MOTION_NS'', [(''MOTION_NORTH'', ''Off'')])]"
proof -
  let ?run = "pulseParam ''Mount'' ''TELESCOPE_MOTION_NS'' ''MOTION_NORTH'' quiet quiet cancelled
                quiet mount_conn"
  have e: "?run = (fst ?run, fst (snd ?run), snd (snd ?run))" by simp
  have c: "aw_error cancelled \<noteq> None" by (simp add: cancelled_def)
  from pulseParam_off_unless_self_stopped [OF e cancelled_pulse_writes] c cancelled_state
  have "fst (snd ?run) = [(''Mount'', ''TELESCOPE_MOTION_NS'', [(''MOTION_NORTH'', ''On'')]),
                          (''Mount'', ''TELESCOPE_MOTION_NS'', [(''MOTION_NORTH'', ''Off'')])]"
    by blast
  with cancelled_pulse_writes c cancelled_state show ?thesis by simp
qed

end
